theory Spec2Isabelle
  imports Complex_Main
begin

section \<open>JavaScript numbers: IEEE 754 binary64\<close>

text \<open>
  The SIP engine and the helpers in \<^verbatim>\<open>utils.js\<close> compute on JavaScript numbers, that is on
  IEEE 754 doubles. A number is a finite value, the negative zero, one of the two
  infinities, or NaN; \<open>Fin 0\<close> is the positive zero. Every arithmetic operation computes
  the exact result and rounds it to the nearest double, a tie going to the even
  significand; a result of magnitude \<open>2^1024\<close> or more after rounding is an infinity, and
  below \<open>2^-1022\<close> the doubles are spaced \<open>2^-1074\<close> apart.
\<close>

datatype jsnum = Fin real | NZero | PInf | NInf | NaN

text \<open>The integer logarithms to base 2: \<open>\<lfloor>log\<^sub>2 n\<rfloor>\<close> and \<open>\<lceil>log\<^sub>2 n\<rceil>\<close> for \<open>n \<ge> 1\<close>.\<close>

fun ilog2 :: "nat \<Rightarrow> nat" where
  "ilog2 n = (if n < 2 then 0 else Suc (ilog2 (n div 2)))"

declare ilog2.simps [simp del]

definition clog2 :: "nat \<Rightarrow> nat" where
  "clog2 n = (if n \<le> 1 then 0 else Suc (ilog2 (n - 1)))"

text \<open>\<open>\<lfloor>log\<^sub>2 x\<rfloor>\<close> for a positive real \<open>x\<close>.\<close>

definition flog2 :: "real \<Rightarrow> int" where
  "flog2 x = (if 1 \<le> x then int (ilog2 (nat \<lfloor>x\<rfloor>)) else - int (clog2 (nat \<lceil>1 / x\<rceil>)))"

definition pow2 :: "int \<Rightarrow> real" where
  "pow2 k = (if 0 \<le> k then 2 ^ nat k else 1 / 2 ^ nat (- k))"

text \<open>
  The exponent of the binade of \<open>x\<close> (the subnormal numbers share the exponent -1022) and
  the spacing of the doubles there.
\<close>

definition expo :: "real \<Rightarrow> int" where
  "expo x = max (- 1022) (flog2 \<bar>x\<bar>)"

definition ulp :: "real \<Rightarrow> real" where
  "ulp x = pow2 (expo x - 52)"

text \<open>The nearest integer, a tie going to the even one.\<close>

definition round_ne :: "real \<Rightarrow> int" where
  "round_ne z =
     (let f = \<lfloor>z\<rfloor> in
      if z - of_int f < 1 / 2 then f
      else if 1 / 2 < z - of_int f then f + 1
      else if even f then f else f + 1)"

text \<open>The magnitude of a positive real, rounded to the grid of its binade.\<close>

definition rnd :: "real \<Rightarrow> real" where
  "rnd x = of_int (round_ne (x / ulp x)) * ulp x"

text \<open>The double nearest to a real \<open>x\<close>; an exact zero comes out as the positive zero.\<close>

definition fl :: "real \<Rightarrow> jsnum" where
  "fl x =
     (if x = 0 then Fin 0
      else if 2 ^ 1024 \<le> rnd \<bar>x\<bar> then (if x < 0 then NInf else PInf)
      else if rnd \<bar>x\<bar> = 0 then (if x < 0 then NZero else Fin 0)
      else Fin (if x < 0 then - rnd \<bar>x\<bar> else rnd \<bar>x\<bar>))"

text \<open>The sign bit, the class and the value of a number that is not NaN.\<close>

fun negative :: "jsnum \<Rightarrow> bool" where
  "negative (Fin x) = (x < 0)"
| "negative NZero = True"
| "negative NInf = True"
| "negative a = False"

fun is_zero :: "jsnum \<Rightarrow> bool" where
  "is_zero (Fin x) = (x = 0)"
| "is_zero NZero = True"
| "is_zero a = False"

fun is_inf :: "jsnum \<Rightarrow> bool" where
  "is_inf PInf = True"
| "is_inf NInf = True"
| "is_inf a = False"

fun isFinite :: "jsnum \<Rightarrow> bool" where
  "isFinite (Fin x) = True"
| "isFinite NZero = True"
| "isFinite a = False"

fun fval :: "jsnum \<Rightarrow> real" where
  "fval (Fin x) = x"
| "fval a = 0"

definition signed_zero :: "bool \<Rightarrow> jsnum" where
  "signed_zero neg = (if neg then NZero else Fin 0)"

definition signed_inf :: "bool \<Rightarrow> jsnum" where
  "signed_inf neg = (if neg then NInf else PInf)"

instantiation jsnum :: "{uminus, plus, minus, times, inverse, ord}"
begin

fun uminus_jsnum :: "jsnum \<Rightarrow> jsnum" where
  "uminus_jsnum (Fin x) = (if x = 0 then NZero else Fin (- x))"
| "uminus_jsnum NZero = Fin 0"
| "uminus_jsnum PInf = NInf"
| "uminus_jsnum NInf = PInf"
| "uminus_jsnum NaN = NaN"

text \<open>
  A sum that is exactly zero is \<open>+0\<close>, unless both operands are \<open>-0\<close>.
\<close>

definition plus_jsnum :: "jsnum \<Rightarrow> jsnum \<Rightarrow> jsnum" where
  "plus_jsnum a b =
     (if a = NaN \<or> b = NaN then NaN
      else if is_inf a then (if is_inf b \<and> a \<noteq> b then NaN else a)
      else if is_inf b then b
      else if a = NZero \<and> b = NZero then NZero
      else fl (fval a + fval b))"

definition minus_jsnum :: "jsnum \<Rightarrow> jsnum \<Rightarrow> jsnum" where
  "minus_jsnum a b = a + (- b)"

text \<open>The sign of a product or quotient is the exclusive or of the operands' signs.\<close>

definition times_jsnum :: "jsnum \<Rightarrow> jsnum \<Rightarrow> jsnum" where
  "times_jsnum a b =
     (if a = NaN \<or> b = NaN then NaN
      else if (is_zero a \<and> is_inf b) \<or> (is_inf a \<and> is_zero b) then NaN
      else if is_inf a \<or> is_inf b then signed_inf (negative a \<noteq> negative b)
      else if is_zero a \<or> is_zero b then signed_zero (negative a \<noteq> negative b)
      else fl (fval a * fval b))"

definition divide_jsnum :: "jsnum \<Rightarrow> jsnum \<Rightarrow> jsnum" where
  "divide_jsnum a b =
     (if a = NaN \<or> b = NaN then NaN
      else if (is_inf a \<and> is_inf b) \<or> (is_zero a \<and> is_zero b) then NaN
      else if is_inf a \<or> is_zero b then signed_inf (negative a \<noteq> negative b)
      else if is_inf b \<or> is_zero a then signed_zero (negative a \<noteq> negative b)
      else fl (fval a / fval b))"

definition inverse_jsnum :: "jsnum \<Rightarrow> jsnum" where
  "inverse_jsnum a = divide (Fin 1) a"

text \<open>Comparisons: false when an operand is NaN; the two zeros are equal.\<close>

definition less_eq_jsnum :: "jsnum \<Rightarrow> jsnum \<Rightarrow> bool" where
  "less_eq_jsnum a b =
     (if a = NaN \<or> b = NaN then False
      else if a = NInf \<or> b = PInf then True
      else if a = PInf \<or> b = NInf then False
      else fval a \<le> fval b)"

definition less_jsnum :: "jsnum \<Rightarrow> jsnum \<Rightarrow> bool" where
  "less_jsnum a b =
     (if a = NaN \<or> b = NaN then False
      else if a = PInf \<or> b = NInf then False
      else if a = NInf \<or> b = PInf then True
      else fval a < fval b)"

instance ..

end

definition num :: "int \<Rightarrow> jsnum" where
  "num k = Fin (of_int k)"

text \<open>
  \<^verbatim>\<open>Math.round\<close>: the nearest integer, a tie going towards \<open>+\<infinity>\<close>; a negative argument
  that rounds to zero gives \<open>-0\<close>. The result of rounding a double is a double.
\<close>

fun Math_round :: "jsnum \<Rightarrow> jsnum" where
  "Math_round (Fin x) = (if \<lfloor>x + 1 / 2\<rfloor> = 0 \<and> x < 0 then NZero else Fin (of_int \<lfloor>x + 1 / 2\<rfloor>))"
| "Math_round a = a"

fun Math_abs :: "jsnum \<Rightarrow> jsnum" where
  "Math_abs (Fin x) = Fin \<bar>x\<bar>"
| "Math_abs NZero = Fin 0"
| "Math_abs NaN = NaN"
| "Math_abs a = PInf"

text \<open>
  \<^verbatim>\<open>Math.pow\<close>, after \<open>Number::exponentiate\<close> of ECMAScript, which fixes the result at NaN, at
  the zeros and at the infinities and leaves the remaining case, a finite non-zero base
  and a finite non-zero exponent, to an approximation chosen by the implementation.
  Modelled from the spec: that approximation is taken to be the correctly rounded power.
\<close>

definition ipow :: "real \<Rightarrow> int \<Rightarrow> real" where
  "ipow x n = (if 0 \<le> n then x ^ nat n else 1 / x ^ nat (- n))"

definition integral :: "real \<Rightarrow> bool" where
  "integral y = (y = of_int \<lfloor>y\<rfloor>)"

definition rpow :: "real \<Rightarrow> real \<Rightarrow> real" where
  "rpow x y = (if integral y then ipow x \<lfloor>y\<rfloor> else x powr y)"

fun odd_integer :: "jsnum \<Rightarrow> bool" where
  "odd_integer (Fin y) = (integral y \<and> odd \<lfloor>y\<rfloor>)"
| "odd_integer a = False"

definition Math_pow :: "jsnum \<Rightarrow> jsnum \<Rightarrow> jsnum" where
  "Math_pow base exponent =
     (if exponent = NaN then NaN
      else if is_zero exponent then Fin 1
      else if base = NaN then NaN
      else if base = PInf then (if Fin 0 < exponent then PInf else Fin 0)
      else if base = NInf then
        (if Fin 0 < exponent then (if odd_integer exponent then NInf else PInf)
         else (if odd_integer exponent then NZero else Fin 0))
      else if base = Fin 0 then (if Fin 0 < exponent then Fin 0 else PInf)
      else if base = NZero then
        (if Fin 0 < exponent then (if odd_integer exponent then NZero else Fin 0)
         else (if odd_integer exponent then NInf else PInf))
      else if exponent = PInf then
        (if 1 < \<bar>fval base\<bar> then PInf else if \<bar>fval base\<bar> = 1 then NaN else Fin 0)
      else if exponent = NInf then
        (if 1 < \<bar>fval base\<bar> then Fin 0 else if \<bar>fval base\<bar> = 1 then NaN else PInf)
      else if fval base < 0 \<and> \<not> integral (fval exponent) then NaN
      else fl (rpow (fval base) (fval exponent)))"

text \<open>
  \<^verbatim>\<open>x.toFixed(1)\<close> returns a string. The model keeps what the string shows: the text of
  a non-finite value, or the sign and the number of tenths \<open>n\<close> with \<open>n / 10\<close> nearest to
  \<open>\<bar>x\<bar>\<close> (the larger \<open>n\<close> at a tie); from \<open>10\<^sup>2\<^sup>1\<close> on the method prints the number itself.
\<close>

datatype fixed1 = Str_NaN | Str_Infinity | Str_NegInfinity
  | Tenths bool nat | Str_Number real

fun toFixed1 :: "jsnum \<Rightarrow> fixed1" where
  "toFixed1 NaN = Str_NaN"
| "toFixed1 PInf = Str_Infinity"
| "toFixed1 NInf = Str_NegInfinity"
| "toFixed1 NZero = Tenths False 0"
| "toFixed1 (Fin x) =
     (if 10 ^ 21 \<le> \<bar>x\<bar> then Str_Number x
      else Tenths (x < 0) (nat \<lfloor>\<bar>x\<bar> * 10 + 1 / 2\<rfloor>))"

section \<open>utils.js: fund score\<close>

record metrics =
  er :: jsnum
  alpha :: jsnum
  sharpe :: jsnum
  cagr :: jsnum

definition scoreFund :: "metrics \<Rightarrow> jsnum" where
  "scoreFund m =
     (let score = Fin 0;
          score = (if er m \<le> Fin (1 / 2) then score + Fin 25
                   else if er m \<le> Fin 1 then score + Fin 20
                   else if er m \<le> Fin (3 / 2) then score + Fin 15
                   else score + Fin 10);
          score = (if alpha m \<ge> Fin 3 then score + Fin 25
                   else if alpha m \<ge> Fin 2 then score + Fin 20
                   else if alpha m \<ge> Fin 1 then score + Fin 15
                   else if alpha m \<ge> Fin 0 then score + Fin 10
                   else score + Fin 5);
          score = (if sharpe m \<ge> Fin 2 then score + Fin 25
                   else if sharpe m \<ge> Fin (3 / 2) then score + Fin 20
                   else if sharpe m \<ge> Fin 1 then score + Fin 15
                   else score + Fin 10);
          score = (if cagr m \<ge> Fin 18 then score + Fin 25
                   else if cagr m \<ge> Fin 15 then score + Fin 20
                   else if cagr m \<ge> Fin 12 then score + Fin 15
                   else score + Fin 10)
      in Math_round score)"

section \<open>utils.js: forward SIP value\<close>

record sip_future =
  u_futureValue :: jsnum
  u_principal :: jsnum
  u_gains :: jsnum

definition calculateSIPFuture :: "jsnum \<Rightarrow> jsnum \<Rightarrow> jsnum \<Rightarrow> sip_future" where
  "calculateSIPFuture sip years annualRate =
     (let monthlyRate' = annualRate / Fin 100 / Fin 12;
          months' = years * Fin 12;
          fv = sip * (Math_pow (Fin 1 + monthlyRate') months' - Fin 1) / monthlyRate'
                 * (Fin 1 + monthlyRate')
      in \<lparr>u_futureValue = fv,
          u_principal = sip * months',
          u_gains = fv - (sip * months')\<rparr>)"

section \<open>The SIP engine (class SIPCalculator)\<close>

text \<open>
  Every argument is a number. The local variables of the source carry a prime here; the
  unprimed names are the fields of the returned objects.
\<close>

record forward_result =
  futureValue :: jsnum
  principal :: jsnum
  gains :: jsnum
  gainPercent :: fixed1
  monthlyRate :: jsnum
  months :: jsnum

definition calculateForwardSIP :: "jsnum \<Rightarrow> jsnum \<Rightarrow> jsnum \<Rightarrow> forward_result" where
  "calculateForwardSIP monthlyAmount years annualRate =
     (let monthlyRate' = annualRate / Fin 12 / Fin 100;
          months' = years * Fin 12;
          principal' = monthlyAmount * months';
          numerator = Math_pow (Fin 1 + monthlyRate') months' - Fin 1;
          futureValue' = monthlyAmount * (numerator / monthlyRate') * (Fin 1 + monthlyRate');
          gains' = futureValue' - principal';
          gainPercent' = (gains' / futureValue') * Fin 100
      in \<lparr>futureValue = Math_round futureValue',
          principal = Math_round principal',
          gains = Math_round gains',
          gainPercent = toFixed1 gainPercent',
          monthlyRate = monthlyRate',
          months = months'\<rparr>)"

record reverse_result =
  monthlySIP :: jsnum
  totalInvested :: jsnum
  totalGains :: jsnum
  rev_gainPercent :: fixed1
  rev_monthlyRate :: jsnum
  rev_months :: jsnum

definition calculateReverseSIP :: "jsnum \<Rightarrow> jsnum \<Rightarrow> jsnum \<Rightarrow> reverse_result" where
  "calculateReverseSIP goalAmount years annualRate =
     (let monthlyRate' = annualRate / Fin 12 / Fin 100;
          months' = years * Fin 12;
          numerator = Math_pow (Fin 1 + monthlyRate') months' - Fin 1;
          divisor = (numerator / monthlyRate') * (Fin 1 + monthlyRate');
          monthlySIP' = goalAmount / divisor;
          totalInvested' = monthlySIP' * months';
          totalGains' = goalAmount - totalInvested';
          gainPercent' = (totalGains' / goalAmount) * Fin 100
      in \<lparr>monthlySIP = Math_round monthlySIP',
          totalInvested = Math_round totalInvested',
          totalGains = Math_round totalGains',
          rev_gainPercent = toFixed1 gainPercent',
          rev_monthlyRate = monthlyRate',
          rev_months = months'\<rparr>)"

record verify_result =
  forward :: forward_result
  reverse :: reverse_result
  isAccurate :: bool
  variance :: jsnum

definition verifyCalculation :: "jsnum \<Rightarrow> jsnum \<Rightarrow> jsnum \<Rightarrow> verify_result" where
  "verifyCalculation monthlyAmount years annualRate =
     (let forward' = calculateForwardSIP monthlyAmount years annualRate;
          reverse' = calculateReverseSIP (futureValue forward') years annualRate;
          match = (Math_abs (monthlySIP reverse' - monthlyAmount) < Fin 1)
      in \<lparr>forward = forward',
          reverse = reverse',
          isAccurate = match,
          variance = Math_abs (monthlySIP reverse' - monthlyAmount)\<rparr>)"

record projection_row =
  month :: jsnum
  year :: fixed1
  row_principal :: jsnum
  row_gains :: jsnum
  row_futureValue :: jsnum

text \<open>The body of the loop of \<^verbatim>\<open>generateProjectionTable\<close>: the row pushed for month \<open>m\<close>.\<close>

definition projection_row_at :: "jsnum \<Rightarrow> jsnum \<Rightarrow> jsnum \<Rightarrow> projection_row" where
  "projection_row_at monthlyAmount monthlyRate' m =
     (let numerator = Math_pow (Fin 1 + monthlyRate') m - Fin 1;
          fv = monthlyAmount * (numerator / monthlyRate') * (Fin 1 + monthlyRate');
          principal' = monthlyAmount * m;
          gains' = fv - principal'
      in \<lparr>month = m,
          year = toFixed1 (m / Fin 12),
          row_principal = Math_round principal',
          row_gains = Math_round gains',
          row_futureValue = Math_round fv\<rparr>)"

text \<open>
  The loop \<^verbatim>\<open>for (let m = interval; m <= months; m += interval)\<close>. Nothing in the source
  bounds the number of iterations, so the loop is a partial function: \<open>None\<close> is a run
  that never leaves the loop.
\<close>

partial_function (option) projection_loop ::
  "jsnum \<Rightarrow> jsnum \<Rightarrow> jsnum \<Rightarrow> jsnum \<Rightarrow> jsnum \<Rightarrow> projection_row list
     \<Rightarrow> projection_row list option"
where
  "projection_loop monthlyAmount monthlyRate' months' interval m table =
     (if m \<le> months'
      then projection_loop monthlyAmount monthlyRate' months' interval (m + interval)
             (table @ [projection_row_at monthlyAmount monthlyRate' m])
      else Some table)"

declare projection_loop.simps [code]

definition generateProjectionTable ::
  "jsnum \<Rightarrow> jsnum \<Rightarrow> jsnum \<Rightarrow> jsnum \<Rightarrow> projection_row list option" where
  "generateProjectionTable monthlyAmount years annualRate interval =
     (let monthlyRate' = annualRate / Fin 12 / Fin 100;
          months' = years * Fin 12
      in projection_loop monthlyAmount monthlyRate' months' interval interval [])"

text \<open>A call that leaves the interval out takes the default of the signature, 12.\<close>

definition generateProjectionTable_default ::
  "jsnum \<Rightarrow> jsnum \<Rightarrow> jsnum \<Rightarrow> projection_row list option" where
  "generateProjectionTable_default monthlyAmount years annualRate =
     generateProjectionTable monthlyAmount years annualRate (Fin 12)"

text \<open>
  The values that the counter \<open>m\<close> of the loop takes: \<open>counters months interval m ms\<close> says
  that the loop, entered with the counter at \<open>m\<close>, runs its body for the values \<open>ms\<close>, in
  this order, and then leaves.
\<close>

fun counters :: "jsnum \<Rightarrow> jsnum \<Rightarrow> jsnum \<Rightarrow> jsnum list \<Rightarrow> bool" where
  "counters months' interval m [] = (\<not> m \<le> months')"
| "counters months' interval m (x # xs) =
     (x = m \<and> m \<le> months' \<and> counters months' interval (m + interval) xs)"

text \<open>
  The closed form that \<open>calculateForwardSIP\<close> and the body of the loop both evaluate,
  written once for the lemmas below.
\<close>

abbreviation closed_form :: "jsnum \<Rightarrow> jsnum \<Rightarrow> jsnum \<Rightarrow> jsnum" where
  "closed_form P r n \<equiv> P * ((Math_pow (Fin 1 + r) n - Fin 1) / r) * (Fin 1 + r)"

section \<open>Binary logarithm and powers of two\<close>

lemma pow2_powi: "pow2 k = 2 powi k"
  by (simp add: pow2_def power_int_def field_simps)

lemma pow2_pos [simp]: "0 < pow2 k"
  by (simp add: pow2_powi)

lemma pow2_add: "pow2 (a + b) = pow2 a * pow2 b"
  by (simp add: pow2_powi power_int_add)

lemma pow2_mono: "a \<le> b \<Longrightarrow> pow2 a \<le> pow2 b"
  by (simp add: pow2_powi power_int_increasing)

lemma pow2_strict_mono: "a < b \<Longrightarrow> pow2 a < pow2 b"
  by (simp add: pow2_powi power_int_strict_increasing)

lemma pow2_nat: "pow2 (int n) = 2 ^ n"
  by (simp add: pow2_def)

lemma pow2_neg: "pow2 (- int n) = 1 / 2 ^ n"
  by (simp add: pow2_powi power_int_minus field_simps)

lemma ilog2_bounds: "0 < n \<Longrightarrow> 2 ^ ilog2 n \<le> n \<and> n < 2 ^ Suc (ilog2 n)"
proof (induction n rule: ilog2.induct)
  case (1 n)
  show ?case
  proof (cases "n < 2")
    case True
    with 1(2) show ?thesis by (simp add: ilog2.simps)
  next
    case False
    then have "0 < n div 2" by simp
    with 1(1) False have IH: "2 ^ ilog2 (n div 2) \<le> n div 2" "n div 2 < 2 ^ Suc (ilog2 (n div 2))"
      by simp_all
    have eq: "ilog2 n = Suc (ilog2 (n div 2))" using False by (simp add: ilog2.simps)
    from IH show ?thesis unfolding eq by (simp; linarith)
  qed
qed

lemma clog2_bounds: "0 < n \<Longrightarrow> n \<le> 2 ^ clog2 n \<and> (1 < n \<longrightarrow> 2 ^ (clog2 n - 1) < n)"
proof (cases "n \<le> 1")
  case True
  assume "0 < n"
  with True show ?thesis by (simp add: clog2_def)
next
  case False
  then have "0 < n - 1" by simp
  from ilog2_bounds[OF this] False show ?thesis
    by (simp add: clog2_def) linarith
qed

lemma flog2_bounds:
  assumes "0 < x"
  shows "pow2 (flog2 x) \<le> x \<and> x < pow2 (flog2 x + 1)"
proof (cases "1 \<le> x")
  case True
  let ?n = "nat \<lfloor>x\<rfloor>"
  from True have n: "0 < ?n" by simp
  have fl: "flog2 x = int (ilog2 ?n)" using True by (simp add: flog2_def)
  from ilog2_bounds[OF n] have a: "2 ^ ilog2 ?n \<le> ?n" and b: "?n < 2 ^ Suc (ilog2 ?n)" by simp_all
  from a have "real (2 ^ ilog2 ?n) \<le> real ?n" by (simp only: of_nat_le_iff)
  then have "(2::real) ^ ilog2 ?n \<le> real ?n" by simp
  also have "real ?n \<le> x" using True by simp
  finally have lo: "pow2 (flog2 x) \<le> x" by (simp add: fl pow2_nat)
  from b have "?n + 1 \<le> 2 ^ Suc (ilog2 ?n)" by simp
  then have "real (?n + 1) \<le> real (2 ^ Suc (ilog2 ?n))" by (simp only: of_nat_le_iff)
  then have "real (?n + 1) \<le> 2 ^ Suc (ilog2 ?n)" by simp
  moreover have "x < real (?n + 1)" using True by simp linarith
  ultimately have "x < 2 ^ Suc (ilog2 ?n)" by linarith
  moreover have "pow2 (flog2 x + 1) = 2 ^ Suc (ilog2 ?n)"
    unfolding fl using pow2_nat[of "Suc (ilog2 ?n)"] by (simp add: add.commute)
  ultimately show ?thesis using lo by simp
next
  case False
  with assms have x1: "x < 1" by simp
  define n where "n = nat \<lceil>1 / x\<rceil>"
  have y: "1 < 1 / x" using assms x1 by simp
  have "0 \<le> \<lceil>1 / x\<rceil>" using y by (simp add: le_ceiling_iff)
  then have rn: "real n = of_int \<lceil>1 / x\<rceil>" by (simp add: n_def)
  have nlo: "1 / x \<le> real n" and nhi: "real n < 1 / x + 1"
    unfolding rn using ceiling_correct[of "1 / x"] by simp_all
  from y nlo have "1 < real n" by linarith
  then have n2: "1 < n" by simp
  have fl: "flog2 x = - int (clog2 n)" using False by (simp add: flog2_def n_def)
  from n2 have "0 < n" by (rule less_trans[OF zero_less_one])
  from clog2_bounds[OF this] n2 have a: "n \<le> 2 ^ clog2 n" and b: "2 ^ (clog2 n - 1) < n"
    by simp_all
  have c1: "1 \<le> clog2 n" using n2 by (simp add: clog2_def)
  from a have "real n \<le> real (2 ^ clog2 n)" by (simp only: of_nat_le_iff)
  then have "real n \<le> 2 ^ clog2 n" by simp
  with nlo have "1 / x \<le> 2 ^ clog2 n" by linarith
  then have "1 \<le> 2 ^ clog2 n * x" by (simp only: pos_divide_le_eq[OF assms])
  then have "1 \<le> x * 2 ^ clog2 n" by (simp only: mult.commute)
  then have lo: "1 / 2 ^ clog2 n \<le> x" by (subst pos_divide_le_eq) simp_all
  from b have "2 ^ (clog2 n - 1) + 1 \<le> n" by linarith
  then have "real (2 ^ (clog2 n - 1) + 1) \<le> real n" by (simp only: of_nat_le_iff)
  then have "2 ^ (clog2 n - 1) + 1 \<le> real n" by simp
  with nhi have "2 ^ (clog2 n - 1) < 1 / x" by linarith
  then have "2 ^ (clog2 n - 1) * x < 1" by (simp only: pos_less_divide_eq[OF assms])
  then have "x * 2 ^ (clog2 n - 1) < 1" by (simp only: mult.commute)
  then have hi: "x < 1 / 2 ^ (clog2 n - 1)" by (subst pos_less_divide_eq) simp_all
  have p1: "pow2 (flog2 x) = 1 / 2 ^ clog2 n" by (simp only: fl pow2_neg)
  have "- int (clog2 n) + 1 = - int (clog2 n - 1)" using c1 by linarith
  then have p2: "pow2 (flog2 x + 1) = 1 / 2 ^ (clog2 n - 1)"
    by (simp only: fl pow2_neg)
  show ?thesis using lo hi by (simp only: p1 p2 simp_thms)
qed

lemma flog2_unique:
  assumes "pow2 k \<le> x" and "x < pow2 (k + 1)"
  shows "flog2 x = k"
proof -
  have x: "0 < x" using assms(1) pow2_pos[of k] by linarith
  from flog2_bounds[OF x] have a: "pow2 (flog2 x) \<le> x" and b: "x < pow2 (flog2 x + 1)" by simp_all
  have "\<not> flog2 x + 1 \<le> k"
  proof
    assume "flog2 x + 1 \<le> k"
    from pow2_mono[OF this] b assms(1) show False by linarith
  qed
  moreover have "\<not> k + 1 \<le> flog2 x"
  proof
    assume "k + 1 \<le> flog2 x"
    from pow2_mono[OF this] a assms(2) show False by linarith
  qed
  ultimately show ?thesis by linarith
qed

lemma flog2_mono:
  assumes "0 < x" and "x \<le> y"
  shows "flog2 x \<le> flog2 y"
proof (rule ccontr)
  assume "\<not> flog2 x \<le> flog2 y"
  then have "flog2 y + 1 \<le> flog2 x" by simp
  from pow2_mono[OF this] have "pow2 (flog2 y + 1) \<le> pow2 (flog2 x)" .
  moreover from assms have "0 < y" by simp
  ultimately show False using flog2_bounds[OF assms(1)] flog2_bounds[OF \<open>0 < y\<close>] assms(2)
    by linarith
qed

section \<open>Rounding to the nearest double\<close>

lemma round_ne_err: "\<bar>of_int (round_ne z) - z\<bar> \<le> 1 / 2"
  unfolding round_ne_def Let_def by (auto; linarith)

lemma round_ne_int [simp]: "round_ne (of_int k) = k"
  by (simp add: round_ne_def)

lemma round_ne_mono:
  assumes "z \<le> w"
  shows "round_ne z \<le> round_ne w"
proof (cases "\<lfloor>z\<rfloor> = \<lfloor>w\<rfloor>")
  case True
  then have "z - of_int \<lfloor>z\<rfloor> \<le> w - of_int \<lfloor>w\<rfloor>" using assms by simp
  then show ?thesis using True unfolding round_ne_def Let_def by auto
next
  case False
  with assms have "\<lfloor>z\<rfloor> < \<lfloor>w\<rfloor>" using floor_mono[OF assms] by linarith
  then have "\<lfloor>z\<rfloor> + 1 \<le> \<lfloor>w\<rfloor>" by simp
  moreover have "round_ne z \<le> \<lfloor>z\<rfloor> + 1" unfolding round_ne_def Let_def by auto
  moreover have "\<lfloor>w\<rfloor> \<le> round_ne w" unfolding round_ne_def Let_def by auto
  ultimately show ?thesis by linarith
qed

lemma round_ne_nonneg: "0 \<le> z \<Longrightarrow> 0 \<le> round_ne z"
  using round_ne_mono[of 0 z] round_ne_int[of 0] by simp

lemma expo_ge: "- 1022 \<le> expo x"
  by (simp add: expo_def)

lemma pow2_nonneg [simp]: "0 \<le> pow2 k"
  using pow2_pos[of k] by linarith

lemma pow2_neq0 [simp]: "pow2 k \<noteq> 0"
  using pow2_pos[of k] by linarith

lemma ulp_pos [simp]: "0 < ulp x"
  by (simp add: ulp_def)

lemma ulp_nonneg [simp]: "0 \<le> ulp x"
  by (simp add: ulp_def)

lemma ulp_neq0 [simp]: "ulp x \<noteq> 0"
  by (simp add: ulp_def)

lemma expo_upper: "\<bar>x\<bar> < pow2 (expo x + 1)"
proof (cases "x = 0")
  case True
  then show ?thesis by simp
next
  case False
  then have "0 < \<bar>x\<bar>" by simp
  from flog2_bounds[OF this] have "\<bar>x\<bar> < pow2 (flog2 \<bar>x\<bar> + 1)" by simp
  also have "\<dots> \<le> pow2 (expo x + 1)" by (rule pow2_mono) (simp add: expo_def)
  finally show ?thesis .
qed

lemma expo_lower: "- 1022 < expo x \<Longrightarrow> x \<noteq> 0 \<Longrightarrow> pow2 (expo x) \<le> \<bar>x\<bar>"
proof -
  assume a: "- 1022 < expo x" and "x \<noteq> 0"
  then have "0 < \<bar>x\<bar>" by simp
  from flog2_bounds[OF this] have "pow2 (flog2 \<bar>x\<bar>) \<le> \<bar>x\<bar>" by simp
  moreover from a have "expo x = flog2 \<bar>x\<bar>" by (simp add: expo_def max_def split: if_splits)
  ultimately show ?thesis by simp
qed

lemma expo_mono: "0 < \<bar>x\<bar> \<Longrightarrow> \<bar>x\<bar> \<le> \<bar>y\<bar> \<Longrightarrow> expo x \<le> expo y"
  using flog2_mono[of "\<bar>x\<bar>" "\<bar>y\<bar>"] by (simp add: expo_def max_def)

lemma expo_abs [simp]: "expo \<bar>x\<bar> = expo x"
  by (simp add: expo_def)

lemma ulp_abs [simp]: "ulp \<bar>x\<bar> = ulp x"
  by (simp add: ulp_def)

lemma rnd_nonneg: "0 \<le> x \<Longrightarrow> 0 \<le> rnd x"
  by (simp add: rnd_def round_ne_nonneg)

lemma rnd_err: "\<bar>rnd x - x\<bar> \<le> ulp x / 2"
proof -
  have "rnd x - x = (of_int (round_ne (x / ulp x)) - x / ulp x) * ulp x"
    by (simp add: rnd_def field_simps)
  then have "\<bar>rnd x - x\<bar> = \<bar>of_int (round_ne (x / ulp x)) - x / ulp x\<bar> * ulp x"
    by (simp add: abs_mult)
  also have "\<dots> \<le> (1 / 2) * ulp x"
    by (rule mult_right_mono[OF round_ne_err]) simp
  finally show ?thesis by simp
qed

lemma rnd_exact: "x / ulp x = of_int k \<Longrightarrow> rnd x = x"
proof -
  assume a: "x / ulp x = of_int k"
  then have "x = of_int k * ulp x" by (simp add: field_simps)
  then show ?thesis unfolding rnd_def a by simp
qed

lemma two53: "pow2 (e + 1) = 2 ^ 53 * pow2 (e - 52)"
proof -
  have "e + 1 = 53 + (e - 52)" by linarith
  then have "pow2 (e + 1) = pow2 (53 + (e - 52))" by (rule arg_cong)
  also have "\<dots> = pow2 53 * pow2 (e - 52)" by (rule pow2_add)
  also have "pow2 53 = 2 ^ 53" using pow2_nat[of 53] by simp
  finally show ?thesis .
qed

lemma two52: "pow2 e = 2 ^ 52 * pow2 (e - 52)"
proof -
  have "e = 52 + (e - 52)" by linarith
  then have "pow2 e = pow2 (52 + (e - 52))" by (rule arg_cong)
  also have "\<dots> = pow2 52 * pow2 (e - 52)" by (rule pow2_add)
  also have "pow2 52 = 2 ^ 52" using pow2_nat[of 52] by simp
  finally show ?thesis .
qed

lemma rnd_upper: "0 \<le> x \<Longrightarrow> rnd x \<le> pow2 (expo x + 1)"
proof -
  assume "0 \<le> x"
  let ?u = "ulp x"
  have "x < pow2 (expo x + 1)" using expo_upper[of x] \<open>0 \<le> x\<close> by simp
  then have "x < 2 ^ 53 * ?u" by (simp add: two53 ulp_def)
  then have "x / ?u \<le> of_int (2 ^ 53)" by (simp add: field_simps)
  from round_ne_mono[OF this] have "round_ne (x / ?u) \<le> 2 ^ 53" by (simp only: round_ne_int)
  then have "of_int (round_ne (x / ?u)) \<le> (2 ^ 53 :: real)"
    by (metis of_int_le_iff of_int_numeral of_int_power)
  then have "rnd x \<le> 2 ^ 53 * ?u" unfolding rnd_def by (rule mult_right_mono) simp
  then show ?thesis by (simp add: two53 ulp_def)
qed

lemma rnd_lower: "- 1022 < expo x \<Longrightarrow> 0 < x \<Longrightarrow> pow2 (expo x) \<le> rnd x"
proof -
  assume a: "- 1022 < expo x" and "0 < x"
  let ?u = "ulp x"
  have "pow2 (expo x) \<le> x" using expo_lower[OF a] \<open>0 < x\<close> by simp
  then have "2 ^ 52 * ?u \<le> x" by (simp add: two52[of "expo x"] ulp_def)
  then have "of_int (2 ^ 52) \<le> x / ?u" by (simp add: field_simps)
  from round_ne_mono[OF this] have "2 ^ 52 \<le> round_ne (x / ?u)" by (simp only: round_ne_int)
  then have "(2 ^ 52 :: real) \<le> of_int (round_ne (x / ?u))"
    by (metis of_int_le_iff of_int_numeral of_int_power)
  then have "2 ^ 52 * ?u \<le> rnd x" unfolding rnd_def by (rule mult_right_mono) simp
  then show ?thesis by (simp add: two52[of "expo x"] ulp_def)
qed

lemma rnd_mono:
  assumes "0 < x" and "x \<le> y"
  shows "rnd x \<le> rnd y"
proof -
  have e: "expo x \<le> expo y" using assms by (intro expo_mono) simp_all
  show ?thesis
  proof (cases "expo x = expo y")
    case True
    then have u: "ulp x = ulp y" by (simp add: ulp_def)
    have "x / ulp y \<le> y / ulp y" using assms(2) by (intro divide_right_mono) simp_all
    from round_ne_mono[OF this] have "round_ne (x / ulp y) \<le> round_ne (y / ulp y)" .
    then have "(of_int (round_ne (x / ulp y)) :: real) \<le> of_int (round_ne (y / ulp y))" by simp
    then show ?thesis unfolding rnd_def u by (rule mult_right_mono) simp
  next
    case False
    with e have lt: "expo x + 1 \<le> expo y" by simp
    have "rnd x \<le> pow2 (expo x + 1)" using assms(1) by (intro rnd_upper) simp
    also have "\<dots> \<le> pow2 (expo y)" by (rule pow2_mono[OF lt])
    also have "\<dots> \<le> rnd y"
    proof (rule rnd_lower)
      show "- 1022 < expo y" using lt expo_ge[of x] by linarith
      show "0 < y" using assms by simp
    qed
    finally show ?thesis .
  qed
qed

lemma fl_pos: "0 < x \<Longrightarrow> fl x = (if 2 ^ 1024 \<le> rnd x then PInf else Fin (rnd x))"
  by (simp add: fl_def)

lemma fl_neg:
  "x < 0 \<Longrightarrow> fl x = (if 2 ^ 1024 \<le> rnd (- x) then NInf
                       else if rnd (- x) = 0 then NZero else Fin (- rnd (- x)))"
  by (simp add: fl_def)

lemma fl_not_NaN [simp]: "fl x \<noteq> NaN"
  by (simp add: fl_def)

lemma fval_fl_pos: "0 < x \<Longrightarrow> 0 \<le> fval (fl x)"
  by (simp add: fl_pos rnd_nonneg)

lemma fl_mono:
  assumes "x \<le> y"
  shows "fl x \<le> fl y"
proof -
  consider "x < 0" "y < 0" | "x < 0" "y = 0" | "x < 0" "0 < y" | "x = 0" "y = 0"
    | "x = 0" "0 < y" | "0 < x" "0 < y"
    using assms by linarith
  then show ?thesis
  proof cases
    case 1
    then have "rnd (- y) \<le> rnd (- x)" using assms by (intro rnd_mono) simp_all
    moreover have "0 \<le> rnd (- y)" using 1 by (intro rnd_nonneg) simp
    ultimately show ?thesis using 1 by (simp add: fl_neg less_eq_jsnum_def)
  next
    case 2
    have "0 \<le> rnd (- x)" using 2 by (intro rnd_nonneg) simp
    then show ?thesis using 2 by (simp add: fl_neg less_eq_jsnum_def fl_def)
  next
    case 3
    have "0 \<le> rnd (- x)" using 3 by (intro rnd_nonneg) simp
    moreover have "0 \<le> rnd y" using 3 by (intro rnd_nonneg) simp
    ultimately show ?thesis using 3 by (simp add: fl_neg fl_pos less_eq_jsnum_def)
  next
    case 4
    then show ?thesis by (simp add: fl_def less_eq_jsnum_def)
  next
    case 5
    have "0 \<le> rnd y" using 5 by (intro rnd_nonneg) simp
    then show ?thesis using 5 by (simp add: fl_pos less_eq_jsnum_def fl_def)
  next
    case 6
    then have "rnd x \<le> rnd y" using assms by (intro rnd_mono) simp_all
    then show ?thesis using 6 by (simp add: fl_pos less_eq_jsnum_def)
  qed
qed

lemma expo_int_le:
  assumes "\<bar>x\<bar> \<le> 2 ^ 53" and "x \<noteq> 0"
  shows "expo x \<le> 53"
proof (rule ccontr)
  assume "\<not> expo x \<le> 53"
  then have a: "54 \<le> expo x" by simp
  then have "- 1022 < expo x" by simp
  from expo_lower[OF this assms(2)] have "pow2 (expo x) \<le> \<bar>x\<bar>" .
  moreover have "pow2 54 \<le> pow2 (expo x)" by (rule pow2_mono[OF a])
  moreover have "pow2 54 = 2 ^ 54" using pow2_nat[of 54] by simp
  ultimately show False using assms(1) by simp
qed

lemma rnd_int:
  assumes "\<bar>k\<bar> \<le> 2 ^ 53" and "k \<noteq> 0"
  shows "rnd (of_int k) = of_int k"
proof -
  let ?x = "of_int k :: real"
  have x: "\<bar>?x\<bar> \<le> 2 ^ 53" "?x \<noteq> 0"
  proof -
    from assms(1) have "real_of_int \<bar>k\<bar> \<le> real_of_int (2 ^ 53)" by (simp only: of_int_le_iff)
    then show "\<bar>?x\<bar> \<le> 2 ^ 53" by simp
    show "?x \<noteq> 0" using assms(2) by simp
  qed
  have e: "expo ?x \<le> 53" by (rule expo_int_le[OF x])
  show ?thesis
  proof (cases "expo ?x \<le> 52")
    case True
    have "52 - expo ?x = int (nat (52 - expo ?x))" using True by simp
    then have "pow2 (52 - expo ?x) = 2 ^ nat (52 - expo ?x)" using pow2_nat by metis
    moreover have "pow2 (52 - expo ?x) * ulp ?x = 1"
      unfolding ulp_def pow2_add[symmetric] by (simp add: pow2_def)
    then have "?x / ulp ?x = ?x * pow2 (52 - expo ?x)" by (simp add: field_simps)
    ultimately have "?x / ulp ?x = of_int (k * 2 ^ nat (52 - expo ?x))" by simp
    then show ?thesis by (rule rnd_exact)
  next
    case False
    with e have e53: "expo ?x = 53" by simp
    then have "- 1022 < expo ?x" by simp
    from expo_lower[OF this x(2)] have "pow2 53 \<le> \<bar>?x\<bar>" by (simp add: e53)
    moreover have "pow2 53 = 2 ^ 53" using pow2_nat[of 53] by simp
    ultimately have "\<bar>?x\<bar> = 2 ^ 53" using x(1) by simp
    then have "\<bar>k\<bar> = 2 ^ 53" by (metis of_int_abs of_int_eq_iff of_int_numeral of_int_power)
    then have k: "k = 2 ^ 53 \<or> k = - (2 ^ 53)" by linarith
    have u: "ulp ?x = 2" by (simp add: ulp_def e53 pow2_def)
    from k have "?x / ulp ?x = of_int (k div 2)" unfolding u by auto
    then show ?thesis by (rule rnd_exact)
  qed
qed

lemma fl_int:
  assumes "\<bar>k\<bar> \<le> 2 ^ 53"
  shows "fl (of_int k) = Fin (of_int k)"
proof (cases "k = 0")
  case True
  then show ?thesis by (simp add: fl_def)
next
  case False
  let ?x = "of_int k :: real"
  have r: "rnd \<bar>?x\<bar> = \<bar>?x\<bar>"
    using rnd_int[of "\<bar>k\<bar>"] assms False by simp
  from assms have "real_of_int \<bar>k\<bar> \<le> real_of_int (2 ^ 53)" by (simp only: of_int_le_iff)
  then have "\<bar>?x\<bar> \<le> 2 ^ 53" by simp
  then have "\<bar>?x\<bar> < 2 ^ 1024" by (rule order_le_less_trans) simp
  then have big: "\<not> 2 ^ 1024 \<le> rnd \<bar>?x\<bar>" unfolding r by simp
  have nz: "?x \<noteq> 0" "rnd \<bar>?x\<bar> \<noteq> 0" unfolding r using False by simp_all
  have "fl ?x = Fin (if ?x < 0 then - rnd \<bar>?x\<bar> else rnd \<bar>?x\<bar>)"
    unfolding fl_def using big nz by (simp only: if_False)
  also have "(if ?x < 0 then - rnd \<bar>?x\<bar> else rnd \<bar>?x\<bar>) = ?x"
    unfolding r by simp
  finally show ?thesis .
qed

lemma fl_numeral [simp]: "numeral n \<le> (2 ^ 53 :: real) \<Longrightarrow> fl (numeral n) = Fin (numeral n)"
proof -
  assume a: "numeral n \<le> (2 ^ 53 :: real)"
  have "real_of_int (numeral n) \<le> real_of_int (2 ^ 53)" using a by simp
  then have "(numeral n :: int) \<le> 2 ^ 53" by (simp only: of_int_le_iff)
  then have "fl (of_int (numeral n)) = Fin (of_int (numeral n))" by (intro fl_int) simp
  then show ?thesis by simp
qed

lemma fl_neg_numeral [simp]:
  "numeral n \<le> (2 ^ 53 :: real) \<Longrightarrow> fl (- numeral n) = Fin (- numeral n)"
proof -
  assume a: "numeral n \<le> (2 ^ 53 :: real)"
  have "real_of_int (numeral n) \<le> real_of_int (2 ^ 53)" using a by simp
  then have "(numeral n :: int) \<le> 2 ^ 53" by (simp only: of_int_le_iff)
  then have "fl (of_int (- numeral n)) = Fin (of_int (- numeral n))" by (intro fl_int) simp
  then show ?thesis by simp
qed

lemma fl_0 [simp]: "fl 0 = Fin 0"
  by (simp add: fl_def)

lemma fl_1 [simp]: "fl 1 = Fin 1"
  using fl_int[of 1] by simp

section \<open>Arithmetic on finite values\<close>

text \<open>The equations that evaluate the rounding of a given rational number.\<close>

lemmas fl_eval = fl_def rnd_def ulp_def expo_def flog2_def clog2_def pow2_def round_ne_def
  ilog2.simps Let_def

lemma Fin_plus: "Fin x + Fin y = fl (x + y)"
  by (simp add: plus_jsnum_def)

lemma Fin_minus: "Fin x - Fin y = fl (x - y)"
  by (simp add: minus_jsnum_def plus_jsnum_def)

lemma Fin_times:
  "Fin x * Fin y = (if x = 0 \<or> y = 0 then signed_zero ((x < 0) \<noteq> (y < 0)) else fl (x * y))"
  by (simp add: times_jsnum_def)

lemma Fin_divide:
  "Fin x / Fin y = (if x = 0 \<and> y = 0 then NaN
                    else if y = 0 then signed_inf (x < 0)
                    else if x = 0 then signed_zero (y < 0)
                    else fl (x / y))"
  by (simp add: divide_jsnum_def)

lemma NaN_arith [simp]:
  "NaN + a = NaN" "a + NaN = NaN" "NaN - a = NaN" "a - NaN = NaN"
  "NaN * a = NaN" "a * NaN = NaN" "NaN / a = NaN" "a / NaN = NaN"
  by (simp_all add: plus_jsnum_def minus_jsnum_def times_jsnum_def divide_jsnum_def)

lemma NaN_compare [simp]: "\<not> NaN < a" "\<not> a < NaN" "\<not> NaN \<le> a" "\<not> a \<le> NaN"
  by (simp_all add: less_jsnum_def less_eq_jsnum_def)

lemma Fin_le [simp]: "Fin x \<le> Fin y \<longleftrightarrow> x \<le> y"
  by (simp add: less_eq_jsnum_def)

lemma Fin_less [simp]: "Fin x < Fin y \<longleftrightarrow> x < y"
  by (simp add: less_jsnum_def)

section \<open>Rounding errors\<close>

lemma Math_round_finite [simp]: "isFinite (Math_round a) = isFinite a"
  by (cases a) simp_all

lemma fval_Math_round_Fin: "fval (Math_round (Fin x)) = of_int \<lfloor>x + 1 / 2\<rfloor>"
  by simp

lemma Math_round_err: "isFinite a \<Longrightarrow> \<bar>fval (Math_round a) - fval a\<bar> \<le> 1 / 2"
proof (cases a)
  case (Fin x)
  have "\<bar>of_int \<lfloor>x + 1 / 2\<rfloor> - x\<bar> \<le> 1 / 2" by linarith
  then show ?thesis unfolding Fin fval_Math_round_Fin by simp
qed simp_all

lemma Math_round_int: "isFinite a \<Longrightarrow> fval (Math_round a) \<in> \<int>"
  by (cases a) simp_all

lemma fval_fl:
  assumes "rnd \<bar>x\<bar> < 2 ^ 1024"
  shows "isFinite (fl x) \<and> fval (fl x) = (if x < 0 then - rnd \<bar>x\<bar> else rnd \<bar>x\<bar>)"
proof -
  consider "x < 0" | "x = 0" | "0 < x" by linarith
  then show ?thesis
  proof cases
    case 1
    then have "\<not> 2 ^ 1024 \<le> rnd (- x)" using assms by simp
    then have "fl x = (if rnd (- x) = 0 then NZero else Fin (- rnd (- x)))"
      using fl_neg[OF 1] by (simp only: if_False)
    then show ?thesis using 1 by simp
  next
    case 2
    then show ?thesis using round_ne_int[of 0] by (simp add: rnd_def)
  next
    case 3
    then have "\<not> 2 ^ 1024 \<le> rnd x" using assms by simp
    then have "fl x = Fin (rnd x)" using fl_pos[OF 3] by (simp only: if_False)
    then show ?thesis using 3 by simp
  qed
qed

lemma fl_err:
  assumes "\<bar>x\<bar> < 2 ^ 52"
  shows "isFinite (fl x) \<and> \<bar>fval (fl x) - x\<bar> \<le> 1 / 4"
proof -
  have e: "expo x \<le> 51"
  proof (rule ccontr)
    assume "\<not> expo x \<le> 51"
    then have a: "52 \<le> expo x" by simp
    then have b: "- 1022 < expo x" by simp
    have "x \<noteq> 0"
    proof
      assume "x = 0"
      then have "expo x = 0" by (simp add: expo_def flog2_def clog2_def)
      with a show False by simp
    qed
    from expo_lower[OF b this] have "pow2 (expo x) \<le> \<bar>x\<bar>" .
    moreover have "pow2 52 \<le> pow2 (expo x)" by (rule pow2_mono[OF a])
    moreover have "pow2 52 = 2 ^ 52" using pow2_nat[of 52] by simp
    ultimately show False using assms by simp
  qed
  then have "pow2 (expo x - 52) \<le> pow2 (- 1)" by (intro pow2_mono) simp
  moreover have "pow2 (- 1) = 1 / 2" by (simp add: pow2_def)
  ultimately have u: "ulp x \<le> 1 / 2" by (simp add: ulp_def)
  have err: "\<bar>rnd \<bar>x\<bar> - \<bar>x\<bar>\<bar> \<le> 1 / 4"
    using rnd_err[of "\<bar>x\<bar>"] u by simp
  then have "rnd \<bar>x\<bar> \<le> 2 ^ 52 + 1" using assms by linarith
  also have "\<dots> < (2 ^ 1024 :: real)" by simp
  finally have "rnd \<bar>x\<bar> < 2 ^ 1024" .
  from fval_fl[OF this] have f: "isFinite (fl x)"
    and v: "fval (fl x) = (if x < 0 then - rnd \<bar>x\<bar> else rnd \<bar>x\<bar>)" by simp_all
  have "\<bar>fval (fl x) - x\<bar> = \<bar>rnd \<bar>x\<bar> - \<bar>x\<bar>\<bar>"
  proof (cases "x < 0")
    case True
    have "- rnd (- x) - x = - (rnd (- x) - (- x))" by simp
    then have "\<bar>- rnd (- x) - x\<bar> = \<bar>rnd (- x) - (- x)\<bar>" by (simp only: abs_minus_cancel)
    then show ?thesis unfolding v using True by simp
  next
    case False
    then show ?thesis unfolding v by simp
  qed
  with err f show ?thesis by simp
qed

section \<open>Order and monotonicity\<close>

lemma NZero_le [simp]: "NZero \<le> a \<longleftrightarrow> Fin 0 \<le> a" "a \<le> NZero \<longleftrightarrow> a \<le> Fin 0"
  by (simp_all add: less_eq_jsnum_def)

lemma NZero_less [simp]: "NZero < a \<longleftrightarrow> Fin 0 < a" "a < NZero \<longleftrightarrow> a < Fin 0"
  by (simp_all add: less_jsnum_def)

lemma Inf_le [simp]:
  "a \<le> PInf \<longleftrightarrow> a \<noteq> NaN" "NInf \<le> a \<longleftrightarrow> a \<noteq> NaN"
  "PInf \<le> a \<longleftrightarrow> a = PInf" "a \<le> NInf \<longleftrightarrow> a = NInf"
  by (cases a; simp add: less_eq_jsnum_def)+

lemma Inf_less [simp]:
  "a < PInf \<longleftrightarrow> a \<noteq> NaN \<and> a \<noteq> PInf" "NInf < a \<longleftrightarrow> a \<noteq> NaN \<and> a \<noteq> NInf"
  "\<not> PInf < a" "\<not> a < NInf"
  by (cases a; simp add: less_jsnum_def)+

lemma not_less_iff: "\<not> b < a \<longleftrightarrow> a = NaN \<or> b = NaN \<or> a \<le> b"
  by (cases a; cases b) auto

lemma less_imp_le_js: "a < b \<Longrightarrow> a \<le> (b::jsnum)"
  by (cases a; cases b) auto

lemma le_trans_js: "a \<le> b \<Longrightarrow> b \<le> c \<Longrightarrow> a \<le> (c::jsnum)"
  by (cases a; cases b; cases c) auto

lemma le_less_trans_js: "a \<le> b \<Longrightarrow> b < c \<Longrightarrow> a < (c::jsnum)"
  by (cases a; cases b; cases c) auto

lemma fl_nonneg: "0 \<le> x \<Longrightarrow> Fin 0 \<le> fl x"
  using fl_mono[of 0 x] by simp

lemma fl_nonpos: "x \<le> 0 \<Longrightarrow> fl x \<le> Fin 0"
  using fl_mono[of x 0] by simp

lemma plus_mono_js:
  assumes "a \<le> b" and "a + c \<noteq> NaN" and "b + c \<noteq> NaN"
  shows "a + c \<le> b + (c::jsnum)"
  using assms
  by (cases a; cases b; cases c) (auto simp add: plus_jsnum_def intro!: fl_mono fl_nonneg fl_nonpos)

lemma minus_one_mono: "\<not> b < a \<Longrightarrow> \<not> b - Fin 1 < a - Fin 1"
  unfolding not_less_iff
  by (cases a; cases b) (auto simp add: minus_jsnum_def plus_jsnum_def intro!: fl_mono)

lemma round_half_mono: "x \<le> y \<Longrightarrow> \<lfloor>x + 1 / 2 :: real\<rfloor> \<le> \<lfloor>y + 1 / 2\<rfloor>"
  by (intro floor_mono) simp

lemma round_half_nonneg: "0 \<le> y \<Longrightarrow> 0 \<le> \<lfloor>y + 1 / 2 :: real\<rfloor>"
  using round_half_mono[of 0 y] by simp

lemma round_half_nonpos: "x \<le> 0 \<Longrightarrow> \<lfloor>x + 1 / 2 :: real\<rfloor> \<le> 0"
  using round_half_mono[of x 0] by simp

lemma Math_round_NaN [simp]: "Math_round a = NaN \<longleftrightarrow> a = NaN"
  by (cases a) simp_all

lemma Math_round_cmp:
  "Math_round (Fin x) \<le> c \<longleftrightarrow> Fin (of_int \<lfloor>x + 1 / 2\<rfloor>) \<le> c"
  "c \<le> Math_round (Fin x) \<longleftrightarrow> c \<le> Fin (of_int \<lfloor>x + 1 / 2\<rfloor>)"
  by auto

lemma Math_round_mono_le: "a \<le> b \<Longrightarrow> Math_round a \<le> Math_round b"
  by (cases a; cases b)
    (auto simp add: Math_round_cmp round_half_mono round_half_nonneg round_half_nonpos
      simp del: Math_round.simps(1))

lemma Math_round_mono: "\<not> b < a \<Longrightarrow> \<not> Math_round b < Math_round a"
  unfolding not_less_iff using Math_round_mono_le[of a b] by auto

lemma times_mono_left: "Fin 0 < c \<Longrightarrow> \<not> b < a \<Longrightarrow> \<not> c * b < c * a"
  unfolding not_less_iff
  by (cases a; cases b; cases c)
    (auto simp add: times_jsnum_def signed_zero_def signed_inf_def
      intro!: fl_mono fl_nonneg fl_nonpos mult_nonneg_nonneg mult_nonneg_nonpos)

lemma times_mono_right: "Fin 0 < c \<Longrightarrow> \<not> b < a \<Longrightarrow> \<not> b * c < a * c"
  unfolding not_less_iff
  by (cases a; cases b; cases c)
    (auto simp add: times_jsnum_def signed_zero_def signed_inf_def
      intro!: fl_mono fl_nonneg fl_nonpos mult_nonneg_nonneg mult_nonpos_nonneg)

lemma divide_mono: "\<not> negative r \<Longrightarrow> \<not> b < a \<Longrightarrow> \<not> b / r < a / r"
  unfolding not_less_iff
  by (cases a; cases b; cases r)
    (auto simp add: divide_jsnum_def signed_zero_def signed_inf_def divide_right_mono
      divide_le_0_iff zero_le_divide_iff
      intro!: fl_mono fl_nonneg fl_nonpos)

lemma ipow_powr: "0 < x \<Longrightarrow> ipow x n = x powr of_int n"
proof (cases "0 \<le> n")
  case True
  assume x: "0 < x"
  have "x powr real (nat n) = x ^ nat n" by (rule powr_realpow[OF x])
  then show ?thesis using True by (simp add: ipow_def)
next
  case False
  assume x: "0 < x"
  have "x powr real (nat (- n)) = x ^ nat (- n)" by (rule powr_realpow[OF x])
  moreover have "real (nat (- n)) = - of_int n" using False by simp
  ultimately have "x powr (- of_int n) = x ^ nat (- n)" by simp
  then have "x powr of_int n = 1 / x ^ nat (- n)"
    by (metis powr_minus_divide minus_minus)
  then show ?thesis using False by (simp add: ipow_def)
qed

lemma rpow_powr: "0 < x \<Longrightarrow> rpow x y = x powr y"
  by (simp add: rpow_def ipow_powr integral_def)

lemma pow_finite:
  assumes "0 < x" and "isFinite e"
  shows "Math_pow (Fin x) e = fl (x powr fval e)"
  using assms by (cases e) (auto simp add: Math_pow_def rpow_powr)

lemma fl_le_one: "y \<le> 1 \<Longrightarrow> fl y \<le> Fin 1"
  using fl_mono[of y 1] by simp

lemma fl_ge_one: "1 \<le> y \<Longrightarrow> Fin 1 \<le> fl y"
  using fl_mono[of 1 y] by simp

lemma pow_mono:
  assumes "Fin 1 \<le> b"
  shows "\<not> n < m \<Longrightarrow> \<not> Math_pow b n < Math_pow b m"
proof (cases b)
  case (Fin x)
  with assms have x: "1 \<le> x" "0 < x" by simp_all
  have fin: "\<And>e. isFinite e \<Longrightarrow> Math_pow b e = fl (x powr fval e)"
    unfolding Fin by (rule pow_finite[OF x(2)])
  have pinf: "Math_pow b PInf = PInf \<or> Math_pow b PInf = NaN"
    and ninf: "Math_pow b NInf = Fin 0 \<or> Math_pow b NInf = NaN"
    and nan: "Math_pow b NaN = NaN"
    using x unfolding Fin by (auto simp add: Math_pow_def)
  have p_le: "\<And>y. y \<le> 0 \<Longrightarrow> x powr y \<le> 1"
    using powr_mono[of _ 0 x] x by simp
  have p_ge: "\<And>y. 0 \<le> y \<Longrightarrow> 1 \<le> x powr y"
    using powr_mono[of 0 _ x] x by simp
  show "\<not> n < m \<Longrightarrow> \<not> Math_pow b n < Math_pow b m"
    unfolding not_less_iff
    using pinf ninf nan
    by (cases m; cases n)
      (auto simp add: fin x intro!: fl_mono fl_nonneg powr_mono fl_le_one fl_ge_one p_le p_ge)
next
  case PInf
  show "\<not> n < m \<Longrightarrow> \<not> Math_pow b n < Math_pow b m"
    unfolding not_less_iff PInf
    by (cases m; cases n) (auto simp add: Math_pow_def)
qed (use assms in simp_all)

section \<open>A rate of zero\<close>

text \<open>
  The closed form divides by the monthly rate. At a rate of 0 the base of the power is 1,
  the numerator is 0 or NaN, and the quotient by the rate 0 is NaN, whatever the amount
  and the number of years.
\<close>

lemma rpow_one [simp]: "rpow 1 y = 1"
  by (simp add: rpow_def ipow_def)

lemma pow_one: "Math_pow (Fin 1) m = Fin 1 \<or> Math_pow (Fin 1) m = NaN"
  by (cases m) (simp_all add: Math_pow_def)

lemma pow_one_int: "Math_pow (Fin 1) (Fin (numeral n)) = Fin 1"
  by (simp add: Math_pow_def)

lemma forward_zero_rate:
  "futureValue (calculateForwardSIP P y (Fin 0)) = NaN
   \<and> gains (calculateForwardSIP P y (Fin 0)) = NaN"
  using pow_one[of "y * Fin 12"]
  by (auto simp add: calculateForwardSIP_def Let_def Fin_plus Fin_minus Fin_divide signed_zero_def)

lemma reverse_zero_rate: "monthlySIP (calculateReverseSIP G y (Fin 0)) = NaN"
  using pow_one[of "y * Fin 12"]
  by (auto simp add: calculateReverseSIP_def Let_def Fin_plus Fin_minus Fin_divide signed_zero_def)

text \<open>
  C2. At 10000 a month for 20 years and a rate of 0 the specification asks for a future
  value of \<open>10000 * 20 * 12 = 2400000\<close>, the limit of the closed form. The code returns NaN
  for the future value and for the gains; only the principal is 2400000.
\<close>

theorem zero_rate_forward_is_NaN:
  "futureValue (calculateForwardSIP (Fin 10000) (Fin 20) (Fin 0)) = NaN
   \<and> gains (calculateForwardSIP (Fin 10000) (Fin 20) (Fin 0)) = NaN
   \<and> principal (calculateForwardSIP (Fin 10000) (Fin 20) (Fin 0)) = Fin 2400000"
  by (simp add: calculateForwardSIP_def Let_def Fin_plus Fin_minus Fin_divide Fin_times
      signed_zero_def pow_one_int)

text \<open>
  C1. At 10000 a month for 20 years and a rate of 0 the round trip does not recover the
  monthly amount: the forward future value is NaN, the reverse calculation returns NaN
  for the monthly amount, and \<open>verifyCalculation\<close> reports \<open>isAccurate = false\<close> and a
  variance of NaN.
\<close>

theorem zero_rate_round_trip_fails:
  "isAccurate (verifyCalculation (Fin 10000) (Fin 20) (Fin 0)) = False
   \<and> variance (verifyCalculation (Fin 10000) (Fin 20) (Fin 0)) = NaN
   \<and> monthlySIP (reverse (verifyCalculation (Fin 10000) (Fin 20) (Fin 0))) = NaN"
  by (simp add: verifyCalculation_def calculateForwardSIP_def calculateReverseSIP_def
      Let_def Fin_plus Fin_minus Fin_divide Fin_times signed_zero_def pow_one_int)

section \<open>Decomposition of the future value\<close>

text \<open>
  \<open>calculateForwardSIP(0.375, 1, 1200)\<close>: a monthly rate of 1, twelve months. Every
  intermediate value is a double, so nothing is lost before \<^verbatim>\<open>Math.round\<close>: the future
  value is 3071.25, the principal 4.5 and the gains 3066.75.
\<close>

lemma forward_three_eighths:
  "futureValue (calculateForwardSIP (Fin (3 / 8)) (Fin 1) (Fin 1200)) = Fin 3071
   \<and> principal (calculateForwardSIP (Fin (3 / 8)) (Fin 1) (Fin 1200)) = Fin 5
   \<and> gains (calculateForwardSIP (Fin (3 / 8)) (Fin 1) (Fin 1200)) = Fin 3067
   \<and> Fin 5 + Fin 3067 = Fin 3072
   \<and> Fin (3 / 8) * Fin 1 * Fin 12 = Fin (9 / 2)"
proof -
  have s1: "Fin 1200 / Fin 12 = Fin 100"
    by (simp add: Fin_divide signed_zero_def signed_inf_def fl_eval)
  have s2: "Fin 100 / Fin 100 = Fin 1"
    by (simp add: Fin_divide signed_zero_def signed_inf_def fl_eval)
  have s3: "Fin 1 * Fin 12 = Fin 12"
    by (simp add: Fin_times signed_zero_def fl_eval)
  have s4: "Fin (3 / 8) * Fin 12 = Fin (9 / 2)"
    by (simp add: Fin_times signed_zero_def fl_eval)
  have s5: "Fin 1 + Fin 1 = Fin 2"
    by (simp add: Fin_plus Fin_minus fl_eval)
  have s6: "Math_pow (Fin 2) (Fin 12) = Fin 4096"
    by (simp add: Math_pow_def rpow_def ipow_def integral_def power_divide fl_eval)
  have s7: "Fin 4096 - Fin 1 = Fin 4095"
    by (simp add: Fin_plus Fin_minus fl_eval)
  have s8: "Fin 4095 / Fin 1 = Fin 4095"
    by (simp add: Fin_divide signed_zero_def signed_inf_def fl_eval)
  have s9: "Fin (3 / 8) * Fin 4095 = Fin (12285 / 8)"
    by (simp add: Fin_times signed_zero_def fl_eval)
  have s10: "Fin (12285 / 8) * Fin 2 = Fin (12285 / 4)"
    by (simp add: Fin_times signed_zero_def fl_eval)
  have s11: "Fin (12285 / 4) - Fin (9 / 2) = Fin (12267 / 4)"
    by (simp add: Fin_plus Fin_minus fl_eval)
  have s12: "Fin (12267 / 4) / Fin (12285 / 4) = Fin (140531279581181 / 140737488355328)"
    by (simp add: Fin_divide signed_zero_def signed_inf_def fl_eval)
  have s13: "Fin (140531279581181 / 140737488355328) * Fin 100 = Fin (3513281989529525 / 35184372088832)"
    by (simp add: Fin_times signed_zero_def fl_eval)
  have s14: "Math_round (Fin (12285 / 4)) = Fin 3071"
    by simp
  have s15: "Math_round (Fin (9 / 2)) = Fin 5"
    by simp
  have s16: "Math_round (Fin (12267 / 4)) = Fin 3067"
    by simp
  have s17: "Fin 5 + Fin 3067 = Fin 3072"
    by (simp add: Fin_plus Fin_minus fl_eval)
  have s18: "Fin (3 / 8) * Fin 1 = Fin (3 / 8)"
    by (simp add: Fin_times signed_zero_def fl_eval)
  show ?thesis
    by (simp add: calculateForwardSIP_def Let_def
      s1 s2 s3 s4 s5 s6 s7 s8 s9 s10 s11 s12 s13 s14 s15 s16 s17 s18)
qed

text \<open>
  C3. \<open>calculateForwardSIP\<close> rounds the future value, the principal and the gains each on
  its own. The returned principal is \<^verbatim>\<open>Math.round\<close> of the double product
  \<open>monthlyAmount * (years * 12)\<close>. Whenever the returned future value and principal are
  finite and at most \<open>2\<^sup>5\<^sup>0\<close> in magnitude, the returned gains are finite and the future
  value differs from principal plus gains by at most 1.
\<close>

theorem forward_decomposition_rounded:
  assumes "isFinite (futureValue (calculateForwardSIP P y a))"
    and "isFinite (principal (calculateForwardSIP P y a))"
    and "\<bar>fval (futureValue (calculateForwardSIP P y a))\<bar> \<le> 2 ^ 50"
    and "\<bar>fval (principal (calculateForwardSIP P y a))\<bar> \<le> 2 ^ 50"
  shows "principal (calculateForwardSIP P y a) = Math_round (P * (y * Fin 12))
    \<and> isFinite (gains (calculateForwardSIP P y a))
    \<and> \<bar>fval (futureValue (calculateForwardSIP P y a))
         - (fval (principal (calculateForwardSIP P y a))
            + fval (gains (calculateForwardSIP P y a)))\<bar> \<le> 1"
proof -
  let ?r = "a / Fin 12 / Fin 100" and ?n = "y * Fin 12"
  let ?f = "P * ((Math_pow (Fin 1 + ?r) ?n - Fin 1) / ?r) * (Fin 1 + ?r)"
  let ?p = "P * ?n"
  let ?g = "?f - ?p"
  have F: "futureValue (calculateForwardSIP P y a) = Math_round ?f"
    and PR: "principal (calculateForwardSIP P y a) = Math_round ?p"
    and G: "gains (calculateForwardSIP P y a) = Math_round ?g"
    by (simp_all add: calculateForwardSIP_def Let_def)
  from assms(1,2) have ff: "isFinite ?f" and fp: "isFinite ?p" unfolding F PR by simp_all
  have ef: "\<bar>fval (Math_round ?f) - fval ?f\<bar> \<le> 1 / 2" by (rule Math_round_err[OF ff])
  have ep: "\<bar>fval (Math_round ?p) - fval ?p\<bar> \<le> 1 / 2" by (rule Math_round_err[OF fp])
  have small: "\<bar>fval ?f - fval ?p\<bar> < 2 ^ 52"
    using ef ep assms(3,4) unfolding F PR by (simp add: abs_if split: if_splits)
  have gfl: "isFinite ?g \<and> \<bar>fval ?g - (fval ?f - fval ?p)\<bar> \<le> 1 / 4"
  proof (cases "?f = NZero \<and> ?p = Fin 0")
    case True
    then show ?thesis by (simp add: minus_jsnum_def plus_jsnum_def)
  next
    case False
    have "?g = fl (fval ?f - fval ?p)"
      using ff fp False by (cases ?f; cases ?p) (simp_all add: minus_jsnum_def plus_jsnum_def)
    with fl_err[OF small] show ?thesis by simp
  qed
  then have fg: "isFinite ?g" and eg0: "\<bar>fval ?g - (fval ?f - fval ?p)\<bar> \<le> 1 / 4" by simp_all
  have eg: "\<bar>fval (Math_round ?g) - fval ?g\<bar> \<le> 1 / 2" by (rule Math_round_err[OF fg])
  let ?d = "fval (Math_round ?f) - (fval (Math_round ?p) + fval (Math_round ?g))"
  have bound: "\<bar>?d\<bar> \<le> 7 / 4" using ef ep eg eg0 by linarith
  have "?d \<in> \<int>"
    using Math_round_int[OF ff] Math_round_int[OF fp] Math_round_int[OF fg] by simp
  then obtain k :: int where k: "?d = of_int k" by (auto elim: Ints_cases)
  from bound have "\<bar>real_of_int k\<bar> \<le> 7 / 4" unfolding k .
  then have "\<bar>k\<bar> \<le> 1" by linarith
  then have "\<bar>real_of_int k\<bar> \<le> 1" by linarith
  then have "\<bar>?d\<bar> \<le> 1" unfolding k .
  with fg show ?thesis unfolding F PR G by simp
qed

text \<open>
  At \<open>(0.375, 1, 1200)\<close> the hypotheses hold, and the difference there is 1: the bound is
  reached.
\<close>

theorem forward_decomposition_rounded_witness:
  "isFinite (futureValue (calculateForwardSIP (Fin (3 / 8)) (Fin 1) (Fin 1200)))
   \<and> isFinite (principal (calculateForwardSIP (Fin (3 / 8)) (Fin 1) (Fin 1200)))
   \<and> \<bar>fval (futureValue (calculateForwardSIP (Fin (3 / 8)) (Fin 1) (Fin 1200)))\<bar> \<le> 2 ^ 50
   \<and> \<bar>fval (principal (calculateForwardSIP (Fin (3 / 8)) (Fin 1) (Fin 1200)))\<bar> \<le> 2 ^ 50
   \<and> principal (calculateForwardSIP (Fin (3 / 8)) (Fin 1) (Fin 1200))
       = Math_round (Fin (3 / 8) * (Fin 1 * Fin 12))
   \<and> isFinite (gains (calculateForwardSIP (Fin (3 / 8)) (Fin 1) (Fin 1200)))
   \<and> \<bar>fval (futureValue (calculateForwardSIP (Fin (3 / 8)) (Fin 1) (Fin 1200)))
       - (fval (principal (calculateForwardSIP (Fin (3 / 8)) (Fin 1) (Fin 1200)))
          + fval (gains (calculateForwardSIP (Fin (3 / 8)) (Fin 1) (Fin 1200))))\<bar> \<le> 1"
proof -
  let ?res = "calculateForwardSIP (Fin (3 / 8)) (Fin 1) (Fin 1200)"
  have h: "isFinite (futureValue ?res)" "isFinite (principal ?res)"
    "\<bar>fval (futureValue ?res)\<bar> \<le> 2 ^ 50" "\<bar>fval (principal ?res)\<bar> \<le> 2 ^ 50"
    using forward_three_eighths by simp_all
  note c = forward_decomposition_rounded[OF h]
  show ?thesis
    by (intro conjI h c[THEN conjunct1] c[THEN conjunct2, THEN conjunct1]
        c[THEN conjunct2, THEN conjunct2])
qed

text \<open>
  C3 as stated fails at \<open>(0.375, 1, 1200)\<close>: the future value 3071 is not the principal 5
  plus the gains 3067, and the principal 5 is not \<open>0.375 * 1 * 12 = 4.5\<close>.
\<close>

theorem forward_decomposition_fails:
  "futureValue (calculateForwardSIP (Fin (3 / 8)) (Fin 1) (Fin 1200)) = Fin 3071
   \<and> principal (calculateForwardSIP (Fin (3 / 8)) (Fin 1) (Fin 1200)) = Fin 5
   \<and> gains (calculateForwardSIP (Fin (3 / 8)) (Fin 1) (Fin 1200)) = Fin 3067
   \<and> Fin 5 + Fin 3067 = Fin 3072
   \<and> Fin (3 / 8) * Fin 1 * Fin 12 = Fin (9 / 2)"
  by (rule forward_three_eighths)

section \<open>Degenerate gain percentage\<close>

lemma zero_times: "is_zero z \<Longrightarrow> z * x = NaN \<or> is_zero (z * x)"
  by (cases z; cases x) (auto simp add: times_jsnum_def signed_zero_def)

lemma zero_minus_zero: "is_zero a \<Longrightarrow> is_zero b \<Longrightarrow> is_zero (a - b)"
  by (cases a; cases b) (auto simp add: minus_jsnum_def plus_jsnum_def)

lemma zero_div_zero: "is_zero a \<Longrightarrow> is_zero b \<Longrightarrow> a / b = NaN"
  by (cases a; cases b) (auto simp add: divide_jsnum_def)

lemma toFixed1_NaN [simp]: "toFixed1 (NaN * a) = Str_NaN"
  by simp

lemma zero_amount_percent:
  assumes "is_zero f"
  shows "toFixed1 ((f - p) / f * Fin 100) \<in> {Str_NaN, Str_Infinity, Str_NegInfinity}"
proof -
  have d: "(f - p) / f = NaN \<or> is_inf ((f - p) / f)"
    using assms by (cases f; cases "f - p") (auto simp add: divide_jsnum_def signed_inf_def)
  then show ?thesis
  proof
    assume "(f - p) / f = NaN"
    then show ?thesis by simp
  next
    assume "is_inf ((f - p) / f)"
    then show ?thesis
      by (cases "(f - p) / f") (auto simp add: times_jsnum_def signed_inf_def)
  qed
qed

lemma forward_zero_amount:
  assumes "is_zero P"
  shows "gainPercent (calculateForwardSIP P y a) = Str_NaN"
proof -
  let ?r = "a / Fin 12 / Fin 100" and ?n = "y * Fin 12"
  let ?q = "(Math_pow (Fin 1 + ?r) ?n - Fin 1) / ?r"
  let ?fv = "P * ?q * (Fin 1 + ?r)"
  have gp: "gainPercent (calculateForwardSIP P y a) = toFixed1 ((?fv - P * ?n) / ?fv * Fin 100)"
    by (simp add: calculateForwardSIP_def Let_def)
  from zero_times[OF assms, of ?q] have "?fv = NaN \<or> is_zero ?fv"
    using zero_times[of "P * ?q" "Fin 1 + ?r"] by auto
  then show ?thesis
  proof
    assume "?fv = NaN"
    then show ?thesis unfolding gp by simp
  next
    assume f: "is_zero ?fv"
    from zero_times[OF assms, of ?n] show ?thesis
    proof
      assume "P * ?n = NaN"
      then show ?thesis unfolding gp by simp
    next
      assume "is_zero (P * ?n)"
      from zero_div_zero[OF zero_minus_zero[OF f this] f] show ?thesis unfolding gp by simp
    qed
  qed
qed

text \<open>
  \<open>calculateForwardSIP(1, 1, 2\<^sup>-\<^sup>5\<^sup>0)\<close>: the monthly rate is about \<open>7.4e-19\<close>, so \<open>1 + rate\<close> is
  the double 1, the numerator is 0 and the future value is 0 on a principal of 12.
\<close>

lemma forward_tiny_rate:
  "is_zero (Fin 1 * ((Math_pow (Fin 1 + Fin (1 / 2 ^ 50) / Fin 12 / Fin 100) (Fin 1 * Fin 12)
       - Fin 1) / (Fin (1 / 2 ^ 50) / Fin 12 / Fin 100))
       * (Fin 1 + Fin (1 / 2 ^ 50) / Fin 12 / Fin 100))
   \<and> futureValue (calculateForwardSIP (Fin 1) (Fin 1) (Fin (1 / 2 ^ 50))) = Fin 0
   \<and> gainPercent (calculateForwardSIP (Fin 1) (Fin 1) (Fin (1 / 2 ^ 50))) = Str_NegInfinity"
proof -
  have s1: "Fin (1 / 1125899906842624) / Fin 12 = Fin (6004799503160661 / 81129638414606681695789005144064)"
    by (simp add: Fin_divide signed_zero_def signed_inf_def fl_eval)
  have s2: "Fin (6004799503160661 / 81129638414606681695789005144064) / Fin 100 = Fin (3843071682022823 / 5192296858534827628530496329220096)"
    by (simp add: Fin_divide signed_zero_def signed_inf_def fl_eval)
  have s3: "Fin 1 * Fin 12 = Fin 12"
    by (simp add: Fin_times signed_zero_def fl_eval)
  have s4: "Fin 1 + Fin (3843071682022823 / 5192296858534827628530496329220096) = Fin 1"
    by (simp add: Fin_plus Fin_minus fl_eval)
  have s5: "Math_pow (Fin 1) (Fin 12) = Fin 1"
    by (simp add: Math_pow_def rpow_def ipow_def integral_def power_divide fl_eval)
  have s6: "Fin 1 - Fin 1 = Fin 0"
    by (simp add: Fin_plus Fin_minus fl_eval)
  have s7: "Fin 0 / Fin (3843071682022823 / 5192296858534827628530496329220096) = Fin 0"
    by (simp add: Fin_divide signed_zero_def signed_inf_def fl_eval)
  have s8: "Fin 1 * Fin 0 = Fin 0"
    by (simp add: Fin_times signed_zero_def fl_eval)
  have s9: "Fin 0 * Fin 1 = Fin 0"
    by (simp add: Fin_times signed_zero_def fl_eval)
  have s10: "Fin 0 - Fin 12 = Fin (- 12)"
    by (simp add: Fin_plus Fin_minus fl_eval)
  have s11: "Fin (- 12) / Fin 0 = NInf"
    by (simp add: Fin_divide signed_zero_def signed_inf_def fl_eval)
  have s12: "NInf * Fin 100 = NInf"
    by (simp add: plus_jsnum_def minus_jsnum_def times_jsnum_def divide_jsnum_def
        signed_zero_def signed_inf_def)
  have s13: "Math_round (Fin 0) = Fin 0"
    by simp
  have s14: "Math_round (Fin 12) = Fin 12"
    by simp
  have s15: "Math_round (Fin (- 12)) = Fin (- 12)"
    by simp
  show ?thesis
    by (simp add: calculateForwardSIP_def Let_def
      s1 s2 s3 s4 s5 s6 s7 s8 s9 s10 s11 s12 s13 s14 s15)
qed

text \<open>
  C7. \<open>gainPercent\<close> is \<^verbatim>\<open>toFixed(1)\<close> of the double \<open>gains / futureValue * 100\<close>, both taken
  before rounding. Nothing guards a future value of 0: when the computed future value is
  \<open>+0\<close> or \<open>-0\<close> the field is the string "NaN", "Infinity" or "-Infinity", and with a
  monthly amount of 0 it is "NaN" whatever the years and the rate.
\<close>

theorem gainPercent_degenerate:
  "(let r = a / Fin 12 / Fin 100;
        n = y * Fin 12;
        fv = P * ((Math_pow (Fin 1 + r) n - Fin 1) / r) * (Fin 1 + r)
    in gainPercent (calculateForwardSIP P y a) = toFixed1 ((fv - P * n) / fv * Fin 100)
       \<and> (is_zero fv \<longrightarrow> gainPercent (calculateForwardSIP P y a)
             \<in> {Str_NaN, Str_Infinity, Str_NegInfinity}))
   \<and> gainPercent (calculateForwardSIP (Fin 0) y a) = Str_NaN"
proof -
  let ?r = "a / Fin 12 / Fin 100" and ?n = "y * Fin 12"
  let ?fv = "P * ((Math_pow (Fin 1 + ?r) ?n - Fin 1) / ?r) * (Fin 1 + ?r)"
  have gp: "gainPercent (calculateForwardSIP P y a) = toFixed1 ((?fv - P * ?n) / ?fv * Fin 100)"
    by (simp add: calculateForwardSIP_def Let_def)
  have "is_zero ?fv \<longrightarrow> gainPercent (calculateForwardSIP P y a)
      \<in> {Str_NaN, Str_Infinity, Str_NegInfinity}"
    unfolding gp using zero_amount_percent[of ?fv "P * ?n"] by blast
  moreover have "gainPercent (calculateForwardSIP (Fin 0) y a) = Str_NaN"
    by (rule forward_zero_amount) simp
  ultimately show ?thesis unfolding Let_def using gp by blast
qed

text \<open>
  One a month for one year at a rate of \<open>2\<^sup>-\<^sup>5\<^sup>0\<close>: the computed future value is 0 and the
  field is "-Infinity".
\<close>

theorem gainPercent_degenerate_witness:
  "is_zero (Fin 1 * ((Math_pow (Fin 1 + Fin (1 / 2 ^ 50) / Fin 12 / Fin 100) (Fin 1 * Fin 12)
       - Fin 1) / (Fin (1 / 2 ^ 50) / Fin 12 / Fin 100))
       * (Fin 1 + Fin (1 / 2 ^ 50) / Fin 12 / Fin 100))
   \<and> gainPercent (calculateForwardSIP (Fin 1) (Fin 1) (Fin (1 / 2 ^ 50))) = Str_NegInfinity
   \<and> gainPercent (calculateForwardSIP (Fin 0) (Fin 1) (Fin (1 / 2 ^ 50))) = Str_NaN"
  using gainPercent_degenerate[where P = "Fin 1" and y = "Fin 1" and a = "Fin (1 / 2 ^ 50)"]
    forward_tiny_rate
  by (simp add: Let_def)

text \<open>
  C7 as stated fails at a monthly amount of 0 for one year at 12 percent: the future
  value is 0 and \<open>gainPercent\<close> is "NaN".
\<close>

theorem gainPercent_NaN_at_zero_amount:
  "futureValue (calculateForwardSIP (Fin 0) (Fin 1) (Fin 12)) = Fin 0
   \<and> gainPercent (calculateForwardSIP (Fin 0) (Fin 1) (Fin 12)) = Str_NaN"
proof -
  have s1: "Fin 12 / Fin 12 = Fin 1"
    by (simp add: Fin_divide signed_zero_def signed_inf_def fl_eval)
  have s2: "Fin 1 / Fin 100 = Fin (5764607523034235 / 576460752303423488)"
    by (simp add: Fin_divide signed_zero_def signed_inf_def fl_eval)
  have s3: "Fin 1 * Fin 12 = Fin 12"
    by (simp add: Fin_times signed_zero_def fl_eval)
  have s4: "Fin 0 * Fin 12 = Fin 0"
    by (simp add: Fin_times signed_zero_def fl_eval)
  have s5: "Fin 1 + Fin (5764607523034235 / 576460752303423488) = Fin (4548635623644201 / 4503599627370496)"
    by (simp add: Fin_plus Fin_minus fl_eval)
  have s6: "Math_pow (Fin (4548635623644201 / 4503599627370496)) (Fin 12) = Fin (5074768785814087 / 4503599627370496)"
    by (simp add: Math_pow_def rpow_def ipow_def integral_def power_divide fl_eval)
  have s7: "Fin (5074768785814087 / 4503599627370496) - Fin 1 = Fin (571169158443591 / 4503599627370496)"
    by (simp add: Fin_plus Fin_minus fl_eval)
  have s8: "Fin (571169158443591 / 4503599627370496) / Fin (5764607523034235 / 576460752303423488) = Fin (7139614480544887 / 562949953421312)"
    by (simp add: Fin_divide signed_zero_def signed_inf_def fl_eval)
  have s9: "Fin 0 * Fin (7139614480544887 / 562949953421312) = Fin 0"
    by (simp add: Fin_times signed_zero_def fl_eval)
  have s10: "Fin 0 * Fin (4548635623644201 / 4503599627370496) = Fin 0"
    by (simp add: Fin_times signed_zero_def fl_eval)
  have s11: "Fin 0 - Fin 0 = Fin 0"
    by (simp add: Fin_plus Fin_minus fl_eval)
  have s12: "Fin 0 / Fin 0 = NaN"
    by (simp add: Fin_divide signed_zero_def signed_inf_def fl_eval)
  have s13: "NaN * Fin 100 = NaN"
    by (simp add: plus_jsnum_def minus_jsnum_def times_jsnum_def divide_jsnum_def
        signed_zero_def signed_inf_def)
  have s14: "Math_round (Fin 0) = Fin 0"
    by simp
  show ?thesis
    by (simp add: calculateForwardSIP_def Let_def
      s1 s2 s3 s4 s5 s6 s7 s8 s9 s10 s11 s12 s13 s14)
qed

section \<open>The forward value of utils.js\<close>

text \<open>
  C9. \<open>Utils.calculateSIPFuture\<close> and \<open>calculateForwardSIP\<close> compute the principal by the
  same product, so that the rounded principal of the first is the principal of the second
  for all arguments. (The monthly rate is \<open>annualRate / 100 / 12\<close> in the first and
  \<open>annualRate / 12 / 100\<close> in the second, and the first multiplies by \<open>sip\<close> before it
  divides by the rate, the second after: the future values and the gains are rounded
  differently.)
\<close>

theorem calculateSIPFuture_principal_agrees:
  "Math_round (u_principal (calculateSIPFuture sip years annualRate))
     = principal (calculateForwardSIP sip years annualRate)"
  by (simp add: calculateSIPFuture_def calculateForwardSIP_def Let_def)

text \<open>
  C9 as stated fails at \<open>(10\<^sup>1\<^sup>4, 1, 7)\<close>: the unrounded future values are
  1246487537049667.5 and 1246487537049667.25, and they round to different integers; so do
  the gains.
\<close>

theorem calculateSIPFuture_differs:
  "Math_round (u_futureValue (calculateSIPFuture (Fin 100000000000000) (Fin 1) (Fin 7)))
     = Fin 1246487537049668
   \<and> futureValue (calculateForwardSIP (Fin 100000000000000) (Fin 1) (Fin 7))
     = Fin 1246487537049667
   \<and> Math_round (u_gains (calculateSIPFuture (Fin 100000000000000) (Fin 1) (Fin 7)))
     = Fin 46487537049668
   \<and> gains (calculateForwardSIP (Fin 100000000000000) (Fin 1) (Fin 7))
     = Fin 46487537049667"
proof -
  have s1: "Fin 7 / Fin 12 = Fin (5254199565265579 / 9007199254740992)"
    by (simp add: Fin_divide signed_zero_def signed_inf_def fl_eval)
  have s2: "Fin (5254199565265579 / 9007199254740992) / Fin 100 = Fin (6725375443539941 / 1152921504606846976)"
    by (simp add: Fin_divide signed_zero_def signed_inf_def fl_eval)
  have s3: "Fin 1 * Fin 12 = Fin 12"
    by (simp add: Fin_times signed_zero_def fl_eval)
  have s4: "Fin 100000000000000 * Fin 12 = Fin 1200000000000000"
    by (simp add: Fin_times signed_zero_def fl_eval)
  have s5: "Fin 1 + Fin (6725375443539941 / 1152921504606846976) = Fin (566233828149603 / 562949953421312)"
    by (simp add: Fin_plus Fin_minus fl_eval)
  have s6: "Math_pow (Fin (566233828149603 / 562949953421312)) (Fin 12) = Fin (4829165208577223 / 4503599627370496)"
    by (simp add: Math_pow_def rpow_def ipow_def integral_def power_divide fl_eval)
  have s7: "Fin (4829165208577223 / 4503599627370496) - Fin 1 = Fin (325565581206727 / 4503599627370496)"
    by (simp add: Fin_plus Fin_minus fl_eval)
  have s8: "Fin (325565581206727 / 4503599627370496) / Fin (6725375443539941 / 1152921504606846976) = Fin (6976405311572721 / 562949953421312)"
    by (simp add: Fin_divide signed_zero_def signed_inf_def fl_eval)
  have s9: "Fin 100000000000000 * Fin (6976405311572721 / 562949953421312) = Fin (4957034115856175 / 4)"
    by (simp add: Fin_times signed_zero_def fl_eval)
  have s10: "Fin (4957034115856175 / 4) * Fin (566233828149603 / 562949953421312) = Fin (4985950148198669 / 4)"
    by (simp add: Fin_times signed_zero_def fl_eval)
  have s11: "Fin (4985950148198669 / 4) - Fin 1200000000000000 = Fin (185950148198669 / 4)"
    by (simp add: Fin_plus Fin_minus fl_eval)
  have s12: "Fin (185950148198669 / 4) / Fin (4985950148198669 / 4) = Fin (5374751007100655 / 144115188075855872)"
    by (simp add: Fin_divide signed_zero_def signed_inf_def fl_eval)
  have s13: "Fin (5374751007100655 / 144115188075855872) * Fin 100 = Fin (8398048448594773 / 2251799813685248)"
    by (simp add: Fin_times signed_zero_def fl_eval)
  have s14: "Math_round (Fin (4985950148198669 / 4)) = Fin 1246487537049667"
    by simp
  have s15: "Math_round (Fin 1200000000000000) = Fin 1200000000000000"
    by simp
  have s16: "Math_round (Fin (185950148198669 / 4)) = Fin 46487537049667"
    by simp
  have s17: "Fin 7 / Fin 100 = Fin (1261007895663739 / 18014398509481984)"
    by (simp add: Fin_divide signed_zero_def signed_inf_def fl_eval)
  have s18: "Fin (1261007895663739 / 18014398509481984) / Fin 12 = Fin (6725375443539941 / 1152921504606846976)"
    by (simp add: Fin_divide signed_zero_def signed_inf_def fl_eval)
  have s19: "Fin 100000000000000 * Fin (325565581206727 / 4503599627370496) = Fin (1850626069919639 / 256)"
    by (simp add: Fin_times signed_zero_def fl_eval)
  have s20: "Fin (1850626069919639 / 256) / Fin (6725375443539941 / 1152921504606846976) = Fin 1239258528964044"
    by (simp add: Fin_divide signed_zero_def signed_inf_def fl_eval)
  have s21: "Fin 1239258528964044 * Fin (566233828149603 / 562949953421312) = Fin (2492975074099335 / 2)"
    by (simp add: Fin_times signed_zero_def fl_eval)
  have s22: "Fin (2492975074099335 / 2) - Fin 1200000000000000 = Fin (92975074099335 / 2)"
    by (simp add: Fin_plus Fin_minus fl_eval)
  have s23: "Math_round (Fin (2492975074099335 / 2)) = Fin 1246487537049668"
    by simp
  have s24: "Math_round (Fin (92975074099335 / 2)) = Fin 46487537049668"
    by simp
  show ?thesis
    by (simp add: calculateSIPFuture_def calculateForwardSIP_def Let_def
      s1 s2 s3 s4 s5 s6 s7 s8 s9 s10 s11 s12 s13 s14 s15 s16 s17 s18 s19 s20 s21 s22 s23
      s24)
qed

section \<open>Monotonicity of the forward calculation\<close>

lemma less_le_trans_js: "a < b \<Longrightarrow> b \<le> c \<Longrightarrow> a < (c::jsnum)"
  by (cases a; cases b; cases c) auto

lemma fl_sign: "0 \<le> y \<Longrightarrow> \<not> negative (fl y)"
proof (cases "y = 0")
  case False
  assume "0 \<le> y"
  with False have y: "0 < y" by simp
  then have "0 \<le> rnd y" by (intro rnd_nonneg) simp
  then show ?thesis by (simp add: fl_pos[OF y])
qed simp

lemma divide_sign:
  assumes "\<not> negative a" and "a \<noteq> NaN" and "0 < c"
  shows "\<not> negative (a / Fin c) \<and> a / Fin c \<noteq> NaN"
  using assms
  by (cases a) (auto simp add: divide_jsnum_def signed_zero_def signed_inf_def intro!: fl_sign)

lemma rate_sign:
  assumes "Fin 0 < a"
  shows "\<not> negative (a / Fin 12 / Fin 100) \<and> a / Fin 12 / Fin 100 \<noteq> NaN"
proof -
  from assms have "\<not> negative a" "a \<noteq> NaN" by (cases a; simp)+
  from divide_sign[OF this, of 12] have "\<not> negative (a / Fin 12)" "a / Fin 12 \<noteq> NaN" by simp_all
  from divide_sign[OF this, of 100] show ?thesis by simp
qed

lemma base_ge_one: "\<not> negative r \<Longrightarrow> r \<noteq> NaN \<Longrightarrow> Fin 1 \<le> Fin 1 + r"
  by (cases r) (auto simp add: plus_jsnum_def intro!: fl_ge_one)

lemma closed_form_mono:
  assumes "Fin 0 < P" and "\<not> negative r" and "r \<noteq> NaN" and "\<not> n < m"
  shows "\<not> closed_form P r n < closed_form P r m"
proof -
  have b: "Fin 1 \<le> Fin 1 + r" by (rule base_ge_one[OF assms(2,3)])
  have "Fin 0 < Fin 1 + r" by (rule less_le_trans_js[OF _ b]) simp
  moreover have "\<not> P * ((Math_pow (Fin 1 + r) n - Fin 1) / r)
      < P * ((Math_pow (Fin 1 + r) m - Fin 1) / r)"
    by (intro times_mono_left[OF assms(1)] divide_mono[OF assms(2)] minus_one_mono
        pow_mono[OF b] assms(4))
  ultimately show ?thesis by (rule times_mono_right)
qed

text \<open>
  A quarter of a unit a month at 1200 percent (a monthly rate of 1) for one and for two
  years, the same for one year at the next double above 1200, and one unit a month for two
  years at \<open>2\<^sup>-\<^sup>5\<^sup>0\<close> percent.
\<close>

lemma forward_quarter:
  "futureValue (calculateForwardSIP (Fin (1 / 4)) (Fin 1) (Fin 1200)) = Fin 2048
   \<and> futureValue (calculateForwardSIP (Fin (1 / 4)) (Fin 2) (Fin 1200)) = Fin 8388608
   \<and> futureValue (calculateForwardSIP (Fin (1 / 4)) (Fin 1) (Fin (5277655813324801 / 4398046511104))) = Fin 2047
   \<and> futureValue (calculateForwardSIP (Fin 1) (Fin 2) (Fin (1 / 2 ^ 50))) = Fin 0"
proof -
  have s1: "Fin 1200 / Fin 12 = Fin 100"
    by (simp add: Fin_divide signed_zero_def signed_inf_def fl_eval)
  have s2: "Fin 100 / Fin 100 = Fin 1"
    by (simp add: Fin_divide signed_zero_def signed_inf_def fl_eval)
  have s3: "Fin 1 * Fin 12 = Fin 12"
    by (simp add: Fin_times signed_zero_def fl_eval)
  have s4: "Fin (1 / 4) * Fin 12 = Fin 3"
    by (simp add: Fin_times signed_zero_def fl_eval)
  have s5: "Fin 1 + Fin 1 = Fin 2"
    by (simp add: Fin_plus Fin_minus fl_eval)
  have s6: "Math_pow (Fin 2) (Fin 12) = Fin 4096"
    by (simp add: Math_pow_def rpow_def ipow_def integral_def power_divide fl_eval)
  have s7: "Fin 4096 - Fin 1 = Fin 4095"
    by (simp add: Fin_plus Fin_minus fl_eval)
  have s8: "Fin 4095 / Fin 1 = Fin 4095"
    by (simp add: Fin_divide signed_zero_def signed_inf_def fl_eval)
  have s9: "Fin (1 / 4) * Fin 4095 = Fin (4095 / 4)"
    by (simp add: Fin_times signed_zero_def fl_eval)
  have s10: "Fin (4095 / 4) * Fin 2 = Fin (4095 / 2)"
    by (simp add: Fin_times signed_zero_def fl_eval)
  have s11: "Fin (4095 / 2) - Fin 3 = Fin (4089 / 2)"
    by (simp add: Fin_plus Fin_minus fl_eval)
  have s12: "Fin (4089 / 2) / Fin (4095 / 2) = Fin (140531279581181 / 140737488355328)"
    by (simp add: Fin_divide signed_zero_def signed_inf_def fl_eval)
  have s13: "Fin (140531279581181 / 140737488355328) * Fin 100 = Fin (3513281989529525 / 35184372088832)"
    by (simp add: Fin_times signed_zero_def fl_eval)
  have s14: "Math_round (Fin (4095 / 2)) = Fin 2048"
    by simp
  have s15: "Math_round (Fin 3) = Fin 3"
    by simp
  have s16: "Math_round (Fin (4089 / 2)) = Fin 2045"
    by simp
  have s17: "Fin 2 * Fin 12 = Fin 24"
    by (simp add: Fin_times signed_zero_def fl_eval)
  have s18: "Fin (1 / 4) * Fin 24 = Fin 6"
    by (simp add: Fin_times signed_zero_def fl_eval)
  have s19: "Math_pow (Fin 2) (Fin 24) = Fin 16777216"
    by (simp add: Math_pow_def rpow_def ipow_def integral_def power_divide fl_eval)
  have s20: "Fin 16777216 - Fin 1 = Fin 16777215"
    by (simp add: Fin_plus Fin_minus fl_eval)
  have s21: "Fin 16777215 / Fin 1 = Fin 16777215"
    by (simp add: Fin_divide signed_zero_def signed_inf_def fl_eval)
  have s22: "Fin (1 / 4) * Fin 16777215 = Fin (16777215 / 4)"
    by (simp add: Fin_times signed_zero_def fl_eval)
  have s23: "Fin (16777215 / 4) * Fin 2 = Fin (16777215 / 2)"
    by (simp add: Fin_times signed_zero_def fl_eval)
  have s24: "Fin (16777215 / 2) - Fin 6 = Fin (16777203 / 2)"
    by (simp add: Fin_plus Fin_minus fl_eval)
  have s25: "Fin (16777203 / 2) / Fin (16777215 / 2) = Fin (70368693846013 / 70368744177664)"
    by (simp add: Fin_divide signed_zero_def signed_inf_def fl_eval)
  have s26: "Fin (70368693846013 / 70368744177664) * Fin 100 = Fin (1759217346150325 / 17592186044416)"
    by (simp add: Fin_times signed_zero_def fl_eval)
  have s27: "Math_round (Fin (16777215 / 2)) = Fin 8388608"
    by simp
  have s28: "Math_round (Fin 6) = Fin 6"
    by simp
  have s29: "Math_round (Fin (16777203 / 2)) = Fin 8388602"
    by simp
  have s30: "Fin (5277655813324801 / 4398046511104) / Fin 12 = Fin (7036874417766401 / 70368744177664)"
    by (simp add: Fin_divide signed_zero_def signed_inf_def fl_eval)
  have s31: "Fin (7036874417766401 / 70368744177664) / Fin 100 = Fin (4503599627370497 / 4503599627370496)"
    by (simp add: Fin_divide signed_zero_def signed_inf_def fl_eval)
  have s32: "Fin 1 + Fin (4503599627370497 / 4503599627370496) = Fin 2"
    by (simp add: Fin_plus Fin_minus fl_eval)
  have s33: "Fin 4095 / Fin (4503599627370497 / 4503599627370496) = Fin (4502500115742719 / 1099511627776)"
    by (simp add: Fin_divide signed_zero_def signed_inf_def fl_eval)
  have s34: "Fin (1 / 4) * Fin (4502500115742719 / 1099511627776) = Fin (4502500115742719 / 4398046511104)"
    by (simp add: Fin_times signed_zero_def fl_eval)
  have s35: "Fin (4502500115742719 / 4398046511104) * Fin 2 = Fin (4502500115742719 / 2199023255552)"
    by (simp add: Fin_times signed_zero_def fl_eval)
  have s36: "Fin (4502500115742719 / 2199023255552) - Fin 3 = Fin (4495903045976063 / 2199023255552)"
    by (simp add: Fin_plus Fin_minus fl_eval)
  have s37: "Fin (4495903045976063 / 2199023255552) / Fin (4502500115742719 / 2199023255552) = Fin (140531279581181 / 140737488355328)"
    by (simp add: Fin_divide signed_zero_def signed_inf_def fl_eval)
  have s38: "Math_round (Fin (4502500115742719 / 2199023255552)) = Fin 2047"
    by simp
  have s39: "Math_round (Fin (4495903045976063 / 2199023255552)) = Fin 2044"
    by simp
  have s40: "Fin (1 / 1125899906842624) / Fin 12 = Fin (6004799503160661 / 81129638414606681695789005144064)"
    by (simp add: Fin_divide signed_zero_def signed_inf_def fl_eval)
  have s41: "Fin (6004799503160661 / 81129638414606681695789005144064) / Fin 100 = Fin (3843071682022823 / 5192296858534827628530496329220096)"
    by (simp add: Fin_divide signed_zero_def signed_inf_def fl_eval)
  have s42: "Fin 1 * Fin 24 = Fin 24"
    by (simp add: Fin_times signed_zero_def fl_eval)
  have s43: "Fin 1 + Fin (3843071682022823 / 5192296858534827628530496329220096) = Fin 1"
    by (simp add: Fin_plus Fin_minus fl_eval)
  have s44: "Math_pow (Fin 1) (Fin 24) = Fin 1"
    by (simp add: Math_pow_def rpow_def ipow_def integral_def power_divide fl_eval)
  have s45: "Fin 1 - Fin 1 = Fin 0"
    by (simp add: Fin_plus Fin_minus fl_eval)
  have s46: "Fin 0 / Fin (3843071682022823 / 5192296858534827628530496329220096) = Fin 0"
    by (simp add: Fin_divide signed_zero_def signed_inf_def fl_eval)
  have s47: "Fin 1 * Fin 0 = Fin 0"
    by (simp add: Fin_times signed_zero_def fl_eval)
  have s48: "Fin 0 * Fin 1 = Fin 0"
    by (simp add: Fin_times signed_zero_def fl_eval)
  have s49: "Fin 0 - Fin 24 = Fin (- 24)"
    by (simp add: Fin_plus Fin_minus fl_eval)
  have s50: "Fin (- 24) / Fin 0 = NInf"
    by (simp add: Fin_divide signed_zero_def signed_inf_def fl_eval)
  have s51: "NInf * Fin 100 = NInf"
    by (simp add: plus_jsnum_def minus_jsnum_def times_jsnum_def divide_jsnum_def
        signed_zero_def signed_inf_def)
  have s52: "Math_round (Fin 0) = Fin 0"
    by simp
  have s53: "Math_round (Fin 24) = Fin 24"
    by simp
  have s54: "Math_round (Fin (- 24)) = Fin (- 24)"
    by simp
  show ?thesis
    by (simp add: calculateForwardSIP_def Let_def
      s1 s2 s3 s4 s5 s6 s7 s8 s9 s10 s11 s12 s13 s14 s15 s16 s17 s18 s19 s20 s21 s22 s23
      s24 s25 s26 s27 s28 s29 s30 s31 s32 s33 s34 s35 s36 s37 s38 s39 s40 s41 s42 s43
      s44 s45 s46 s47 s48 s49 s50 s51 s52 s53 s54)
qed

text \<open>
  C4. For a monthly amount above 0 and an annual rate above 0, a larger number of years
  never gives a smaller \<open>futureValue\<close>: the field is never less than the one returned for
  fewer years. (The rounded field can stay the same, and it is NaN in both calls when the
  computation is degenerate.) Nothing of the kind holds for the rate.
\<close>

theorem forward_years_monotone:
  assumes "Fin 0 < P" and "Fin 0 < a" and "y1 \<le> y2"
  shows "\<not> futureValue (calculateForwardSIP P y2 a) < futureValue (calculateForwardSIP P y1 a)"
proof -
  from assms(3) have "\<not> y2 < y1" by (simp add: not_less_iff)
  then have n: "\<not> y2 * Fin 12 < y1 * Fin 12" by (intro times_mono_right) simp_all
  from rate_sign[OF assms(2)] have r: "\<not> negative (a / Fin 12 / Fin 100)"
    "a / Fin 12 / Fin 100 \<noteq> NaN" by simp_all
  have "\<not> Math_round (closed_form P (a / Fin 12 / Fin 100) (y2 * Fin 12))
      < Math_round (closed_form P (a / Fin 12 / Fin 100) (y1 * Fin 12))"
    by (intro Math_round_mono closed_form_mono[OF assms(1) r n])
  then show ?thesis by (simp add: calculateForwardSIP_def Let_def)
qed

text \<open>A quarter of a unit a month at 1200 percent: 2048 after one year, 8388608 after two.\<close>

theorem forward_years_monotone_witness:
  "Fin 0 < Fin (1 / 4) \<and> Fin 0 < Fin 1200 \<and> Fin 1 \<le> Fin 2
   \<and> \<not> futureValue (calculateForwardSIP (Fin (1 / 4)) (Fin 2) (Fin 1200))
       < futureValue (calculateForwardSIP (Fin (1 / 4)) (Fin 1) (Fin 1200))"
  using forward_years_monotone[where P = "Fin (1 / 4)" and a = "Fin 1200" and ?y1.0 = "Fin 1"
      and ?y2.0 = "Fin 2"]
  by simp

text \<open>
  C4 as stated fails. One unit a month at \<open>2\<^sup>-\<^sup>5\<^sup>0\<close> percent returns 0 after one year and
  after two: no strict increase in the years. A quarter of a unit a month for one year
  returns 2048 at 1200 percent and 2047 at the next double above 1200: a larger rate, a
  smaller future value.
\<close>

theorem forward_not_monotone:
  "futureValue (calculateForwardSIP (Fin 1) (Fin 1) (Fin (1 / 2 ^ 50))) = Fin 0
   \<and> futureValue (calculateForwardSIP (Fin 1) (Fin 2) (Fin (1 / 2 ^ 50))) = Fin 0
   \<and> futureValue (calculateForwardSIP (Fin (1 / 4)) (Fin 1) (Fin 1200)) = Fin 2048
   \<and> futureValue (calculateForwardSIP (Fin (1 / 4)) (Fin 1)
         (Fin (5277655813324801 / 4398046511104))) = Fin 2047
   \<and> Fin 1200 < Fin (5277655813324801 / 4398046511104)"
  using forward_quarter forward_tiny_rate by simp

section \<open>Fund score\<close>

lemma Fin_plus_int:
  assumes "x \<in> \<int>" and "y \<in> \<int>" and "\<bar>x + y\<bar> \<le> 2 ^ 53"
  shows "Fin x + Fin y = Fin (x + y)"
proof -
  from assms(1,2) have "x + y \<in> \<int>" by simp
  then obtain k :: int where k: "x + y = of_int k" by (auto elim: Ints_cases)
  have "real_of_int \<bar>k\<bar> \<le> real_of_int (2 ^ 53)" using assms(3) k by simp
  then have "\<bar>k\<bar> \<le> 2 ^ 53" by (simp only: of_int_le_iff)
  from fl_int[OF this] show ?thesis by (simp add: Fin_plus k)
qed

lemma add_points:
  assumes "s = Fin x" and "x \<in> \<int>" and "lo \<le> x" and "x \<le> hi"
    and "c \<in> \<int>" and "0 \<le> lo" and "hi \<le> 100" and "0 \<le> c" and "c \<le> 25"
  shows "\<exists>z. s + Fin c = Fin z \<and> z \<in> \<int> \<and> lo + c \<le> z \<and> z \<le> hi + c"
proof -
  have "\<bar>x + c\<bar> \<le> 2 ^ 53" using assms by simp
  from Fin_plus_int[OF assms(2,5) this] assms show ?thesis by simp
qed

lemma scoreFund_cases: "\<exists>x. scoreFund m = Fin x \<and> x \<in> \<int> \<and> 35 \<le> x \<and> x \<le> 100"
proof -
  define s1 where "s1 = (if er m \<le> Fin (1 / 2) then Fin 0 + Fin 25
      else if er m \<le> Fin 1 then Fin 0 + Fin 20
      else if er m \<le> Fin (3 / 2) then Fin 0 + Fin 15 else Fin 0 + Fin 10)"
  define s2 where "s2 = (if alpha m \<ge> Fin 3 then s1 + Fin 25
      else if alpha m \<ge> Fin 2 then s1 + Fin 20
      else if alpha m \<ge> Fin 1 then s1 + Fin 15
      else if alpha m \<ge> Fin 0 then s1 + Fin 10 else s1 + Fin 5)"
  define s3 where "s3 = (if sharpe m \<ge> Fin 2 then s2 + Fin 25
      else if sharpe m \<ge> Fin (3 / 2) then s2 + Fin 20
      else if sharpe m \<ge> Fin 1 then s2 + Fin 15 else s2 + Fin 10)"
  define s4 where "s4 = (if cagr m \<ge> Fin 18 then s3 + Fin 25
      else if cagr m \<ge> Fin 15 then s3 + Fin 20
      else if cagr m \<ge> Fin 12 then s3 + Fin 15 else s3 + Fin 10)"
  have sf: "scoreFund m = Math_round s4"
    by (simp only: scoreFund_def Let_def s1_def s2_def s3_def s4_def)
  have z: "Fin 0 = Fin 0" "(0::real) \<in> \<int>" "(0::real) \<le> 0" by simp_all
  have "\<exists>x. s1 = Fin x \<and> x \<in> \<int> \<and> 0 + 10 \<le> x \<and> x \<le> 0 + 25"
    unfolding s1_def
    using add_points[OF z(1,2,3,3), of 25] add_points[OF z(1,2,3,3), of 20]
      add_points[OF z(1,2,3,3), of 15] add_points[OF z(1,2,3,3), of 10]
    by (auto split: if_splits)
  then obtain x1 where x1: "s1 = Fin x1" "x1 \<in> \<int>" "10 \<le> x1" "x1 \<le> 25" by auto
  have "\<exists>x. s2 = Fin x \<and> x \<in> \<int> \<and> 10 + 5 \<le> x \<and> x \<le> 25 + 25"
    unfolding s2_def
    using add_points[OF x1, of 25] add_points[OF x1, of 20] add_points[OF x1, of 15]
      add_points[OF x1, of 10] add_points[OF x1, of 5]
    by (auto split: if_splits)
  then obtain x2 where x2: "s2 = Fin x2" "x2 \<in> \<int>" "15 \<le> x2" "x2 \<le> 50" by auto
  have "\<exists>x. s3 = Fin x \<and> x \<in> \<int> \<and> 15 + 10 \<le> x \<and> x \<le> 50 + 25"
    unfolding s3_def
    using add_points[OF x2, of 25] add_points[OF x2, of 20] add_points[OF x2, of 15]
      add_points[OF x2, of 10]
    by (auto split: if_splits)
  then obtain x3 where x3: "s3 = Fin x3" "x3 \<in> \<int>" "25 \<le> x3" "x3 \<le> 75" by auto
  have "\<exists>x. s4 = Fin x \<and> x \<in> \<int> \<and> 25 + 10 \<le> x \<and> x \<le> 75 + 25"
    unfolding s4_def
    using add_points[OF x3, of 25] add_points[OF x3, of 20] add_points[OF x3, of 15]
      add_points[OF x3, of 10]
    by (auto split: if_splits)
  then obtain x4 where x4: "s4 = Fin x4" "x4 \<in> \<int>" "35 \<le> x4" "x4 \<le> 100" by auto
  from x4(2) obtain k :: int where k: "x4 = of_int k" by (auto elim: Ints_cases)
  have "Math_round s4 = Fin x4" unfolding x4(1) k by simp
  with x4 sf show ?thesis by simp
qed

text \<open>
  C10. For every metrics record, whatever numbers (NaN and the infinities included) its
  fields \<open>er\<close>, \<open>alpha\<close>, \<open>sharpe\<close> and \<open>cagr\<close> hold, \<open>scoreFund\<close> returns an integer
  between 35 and 100.
\<close>

theorem scoreFund_bounds: "\<exists>n::int. scoreFund m = num n \<and> 35 \<le> n \<and> n \<le> 100"
proof -
  obtain x where x: "scoreFund m = Fin x" "x \<in> \<int>" "35 \<le> x" "x \<le> 100"
    using scoreFund_cases by blast
  from x(2) obtain n :: int where n: "x = of_int n"
    by (auto elim: Ints_cases)
  with x show ?thesis
    by (intro exI[of _ n]) (simp add: num_def)
qed

text \<open>Both bounds are reached.\<close>

lemma scoreFund_lowest:
  "scoreFund \<lparr>er = Fin 2, alpha = Fin (- 1), sharpe = Fin 0, cagr = Fin 5\<rparr> = Fin 35"
  by (simp add: scoreFund_def Fin_plus)

lemma scoreFund_highest:
  "scoreFund \<lparr>er = Fin (1 / 2), alpha = Fin 3, sharpe = Fin 2, cagr = Fin 18\<rparr> = Fin 100"
  by (simp add: scoreFund_def Fin_plus)

end
